theory Spec2Isabelle
  imports Complex_Main "HOL-Library.AList"
begin

section \<open>JavaScript values\<close>

text \<open>
  The payloads that travel through the proxy are JSON documents, and the server and the
  browser code only inspect them through property reads, truthiness tests and strict
  equality. A value is modelled as a tree; an object keeps its properties in insertion
  order. Finite numbers are rationals (JSON cannot carry NaN or an infinity).
\<close>

datatype jsval =
    Undefined
  | Null
  | Bool bool
  | Num rat
  | Str string
  | Arr "jsval list"
  | Obj "(string \<times> jsval) list"

text \<open>
  What a rejected promise or a thrown exception carries. \<open>TypeError\<close> is the engine's (a
  property read on null or undefined, a call of something that is not a function);
  \<open>HttpError\<close> and \<open>NetworkError\<close> are the HTTP client's: a response with a status
  outside 2xx (message, status and body), or no response at all (message). \<open>Unsupported\<close> is not a
  JavaScript exception: it marks an evaluation that leaves the fragment of the language
  modelled here (\<^verbatim>\<open>+\<close> on a string or an object concatenates strings).
\<close>

datatype error =
    TypeError string
  | HttpError string int jsval
  | NetworkError string
  | Unsupported

text \<open>\<^verbatim>\<open>err.message\<close>\<close>

fun message :: "error \<Rightarrow> string" where
  "message (TypeError m) = m"
| "message (HttpError m st b) = m"
| "message (NetworkError m) = m"
| "message Unsupported = []"

text \<open>ToBoolean: what \<^verbatim>\<open>if (x)\<close>, \<^verbatim>\<open>!x\<close> and \<^verbatim>\<open>x || y\<close> test.\<close>

fun truthy :: "jsval \<Rightarrow> bool" where
  "truthy Undefined = False"
| "truthy Null = False"
| "truthy (Bool b) = b"
| "truthy (Num n) = (n \<noteq> 0)"
| "truthy (Str s) = (s \<noteq> [])"
| "truthy (Arr xs) = True"
| "truthy (Obj kvs) = True"

text \<open>\<^verbatim>\<open>a || b\<close> on values.\<close>

definition js_or :: "jsval \<Rightarrow> jsval \<Rightarrow> jsval" where
  "js_or a b = (if truthy a then a else b)"

text \<open>
  A property read \<^verbatim>\<open>v.k\<close> for a data key \<open>k\<close> (\<^verbatim>\<open>name\<close>, \<^verbatim>\<open>category\<close>, \<^verbatim>\<open>sublist\<close>,
  \<^verbatim>\<open>latestData\<close>, \<^verbatim>\<open>batteryLevel\<close>, \<^verbatim>\<open>deviceId\<close>, \<^verbatim>\<open>data\<close>): it throws on null and
  undefined, looks the key up in an object, and is undefined on every other value (none
  of these keys is a built-in property of a number, a string, a boolean or an array). The
  route also reads \<^verbatim>\<open>map\<close>, of a value that is not an array.
\<close>

fun get_prop :: "jsval \<Rightarrow> string \<Rightarrow> error + jsval" where
  "get_prop Undefined k =
     Inl (TypeError (''Cannot read properties of undefined (reading '' @ [CHR 0x27] @ k @ [CHR 0x27] @ '')''))"
| "get_prop Null k =
     Inl (TypeError (''Cannot read properties of null (reading '' @ [CHR 0x27] @ k @ [CHR 0x27] @ '')''))"
| "get_prop (Obj kvs) k = Inr (case map_of kvs k of None \<Rightarrow> Undefined | Some v \<Rightarrow> v)"
| "get_prop v k = Inr Undefined"

section \<open>The response cache\<close>

text \<open>
  \<^verbatim>\<open>const CACHE_TTL = 60000; const cache = new Map();\<close>
  The map is the state; \<^verbatim>\<open>Date.now()\<close> is passed in as \<open>now\<close> (milliseconds).
\<close>

record cache_entry =
  data :: jsval
  timestamp :: int

type_synonym cache = "string \<rightharpoonup> cache_entry"

definition CACHE_TTL :: int where
  "CACHE_TTL = 60000"

text \<open>
  \<^verbatim>\<open>
  function getFromCache(key) {
    const cached = cache.get(key);
    if (!cached) return null;
    if (Date.now() - cached.timestamp > CACHE_TTL) {
      cache.delete(key);
      return null;
    }
    return cached.data;
  }
  \<close>
  The result is the returned value together with the map afterwards.
\<close>

definition getFromCache :: "int \<Rightarrow> string \<Rightarrow> cache \<Rightarrow> jsval \<times> cache" where
  "getFromCache now key c =
     (case c key of
        None \<Rightarrow> (Null, c)
      | Some cached \<Rightarrow>
          if now - timestamp cached > CACHE_TTL then (Null, c(key := None))
          else (data cached, c))"

text \<open>
  \<^verbatim>\<open>
  function setCache(key, data) {
    cache.set(key, { data, timestamp: Date.now() });
  }
  \<close>
\<close>

definition setCache :: "int \<Rightarrow> string \<Rightarrow> jsval \<Rightarrow> cache \<Rightarrow> cache" where
  "setCache now key d c = c(key \<mapsto> \<lparr>data = d, timestamp = now\<rparr>)"

section \<open>The browser side: view model\<close>

text \<open>
  \<^verbatim>\<open>
  function updateGauge(percentage) {
    const radius = 90;
    const circumference = 2 * Math.PI * radius;
    const offset = circumference - (percentage / 100) * circumference;
    elements.combinedGauge.style.strokeDashoffset = offset;
    let color;
    if (percentage >= 50) { color = '#4caf50'; }       // Green
    else if (percentage >= 25) { color = '#ffc107'; }  // Yellow
    else { color = '#f44336'; }                        // Red
    elements.combinedGauge.style.stroke = color;
  }
  \<close>
  The two style properties it assigns are the result.
\<close>

record gauge_style =
  strokeDashoffset :: real
  stroke :: string

definition green :: string where "green = ''#4caf50''"
definition yellow :: string where "yellow = ''#ffc107''"
definition red :: string where "red = ''#f44336''"

definition updateGauge :: "rat \<Rightarrow> gauge_style" where
  "updateGauge percentage =
     (let radius = 90;
          circumference = 2 * pi * radius;
          offset = circumference - (of_rat percentage / 100) * circumference
      in \<lparr>strokeDashoffset = offset,
          stroke = (if percentage \<ge> 50 then green
                    else if percentage \<ge> 25 then yellow
                    else red)\<rparr>)"

text \<open>
  \<^verbatim>\<open>Array.prototype.find\<close> and \<^verbatim>\<open>filter\<close> with a callback that may throw: the callback
  runs on the elements from the left, \<^verbatim>\<open>find\<close> stops at the first hit (undefined when
  there is none), and an exception of the callback ends the whole call.
\<close>

fun js_find :: "(jsval \<Rightarrow> error + bool) \<Rightarrow> jsval list \<Rightarrow> error + jsval" where
  "js_find p [] = Inr Undefined"
| "js_find p (x # xs) =
     (case p x of
        Inl e \<Rightarrow> Inl e
      | Inr True \<Rightarrow> Inr x
      | Inr False \<Rightarrow> js_find p xs)"

fun js_filter :: "(jsval \<Rightarrow> error + bool) \<Rightarrow> jsval list \<Rightarrow> error + jsval list" where
  "js_filter p [] = Inr []"
| "js_filter p (x # xs) =
     (case p x of
        Inl e \<Rightarrow> Inl e
      | Inr b \<Rightarrow>
          (case js_filter p xs of
             Inl e \<Rightarrow> Inl e
           | Inr ys \<Rightarrow> Inr (if b then x # ys else ys)))"

text \<open>The callbacks \<^verbatim>\<open>d => d.name === '...'\<close> and \<^verbatim>\<open>d => d.category === 'Battery'\<close>.\<close>

definition prop_is :: "string \<Rightarrow> string \<Rightarrow> jsval \<Rightarrow> error + bool" where
  "prop_is k s d = (case get_prop d k of Inl e \<Rightarrow> Inl e | Inr v \<Rightarrow> Inr (v = Str s))"

record location_view =
  controller :: jsval
  batteries :: "jsval list"
  name :: string

record organized =
  house :: location_view
  shed :: location_view

text \<open>
  \<^verbatim>\<open>
  function organizeDevices(data) {
    if (!data || data.length === 0) return null;
    const mainDevice = data[0];
    const sublist = mainDevice.sublist || [];
    const houseController = sublist.find(d => d.name === 'Controller House');
    const shedController = sublist.find(d => d.name === 'Controller Shed');
    const batteries = sublist.filter(d => d.category === 'Battery');
    return {
      house: { controller: houseController, batteries: batteries, name: 'House' },
      shed: { controller: shedController, batteries: [], name: 'Shed' }
    };
  }
  \<close>
  The argument is \<^verbatim>\<open>rawData\<close>, the parsed body of \<^verbatim>\<open>/api/dashboard\<close>: null, or an array. \<open>None\<close> is the
  returned null. A \<^verbatim>\<open>sublist\<close> that is truthy but not an array has no \<^verbatim>\<open>find\<close> method.
\<close>

definition classify :: "jsval \<Rightarrow> error + organized option" where
  "classify sublist =
     (case sublist of
        Arr ds \<Rightarrow>
          (case js_find (prop_is ''name'' ''Controller House'') ds of
             Inl e \<Rightarrow> Inl e
           | Inr houseController \<Rightarrow>
               (case js_find (prop_is ''name'' ''Controller Shed'') ds of
                  Inl e \<Rightarrow> Inl e
                | Inr shedController \<Rightarrow>
                    (case js_filter (prop_is ''category'' ''Battery'') ds of
                       Inl e \<Rightarrow> Inl e
                     | Inr bs \<Rightarrow>
                         Inr (Some
                           \<lparr>house = \<lparr>controller = houseController, batteries = bs,
                                     name = ''House''\<rparr>,
                            shed = \<lparr>controller = shedController, batteries = [],
                                    name = ''Shed''\<rparr>\<rparr>))))
      | _ \<Rightarrow> Inl (TypeError ''sublist.find is not a function''))"

definition organizeDevices :: "jsval list option \<Rightarrow> error + organized option" where
  "organizeDevices rawData =
     (case rawData of
        None \<Rightarrow> Inr None
      | Some [] \<Rightarrow> Inr None
      | Some (mainDevice # _) \<Rightarrow>
          (case get_prop mainDevice ''sublist'' of
             Inl e \<Rightarrow> Inl e
           | Inr sl \<Rightarrow> classify (js_or sl (Arr []))))"

text \<open>
  The combined level of \<^verbatim>\<open>updateBatteries(batteries)\<close>:
  \<^verbatim>\<open>
    let totalLevel = 0;
    let count = 0;
    batteries.forEach(battery => {
      const data = battery.latestData || {};
      if (data.batteryLevel !== undefined) {
        totalLevel += data.batteryLevel;
        count++;
      }
    });
    const combinedLevel = count > 0 ? totalLevel / count : 0;
    updateGauge(combinedLevel);
  \<close>
  \<^verbatim>\<open>totalLevel\<close> starts as a number; \<^verbatim>\<open>+=\<close> adds a number, null (as 0) or a boolean
  (as 0 or 1) to it, and concatenates strings for any other operand, which is
  \<open>Unsupported\<close> here.
\<close>

definition battery_level :: "jsval \<Rightarrow> error + jsval" where
  "battery_level battery =
     (case get_prop battery ''latestData'' of
        Inl e \<Rightarrow> Inl e
      | Inr ld \<Rightarrow> get_prop (js_or ld (Obj [])) ''batteryLevel'')"

fun plus_operand :: "jsval \<Rightarrow> error + rat" where
  "plus_operand (Num n) = Inr n"
| "plus_operand Null = Inr 0"
| "plus_operand (Bool b) = Inr (if b then 1 else 0)"
| "plus_operand v = Inl Unsupported"

fun forEach_battery :: "jsval list \<Rightarrow> rat \<times> nat \<Rightarrow> error + rat \<times> nat" where
  "forEach_battery [] acc = Inr acc"
| "forEach_battery (battery # rest) (totalLevel, count) =
     (case battery_level battery of
        Inl e \<Rightarrow> Inl e
      | Inr l \<Rightarrow>
          if l \<noteq> Undefined then
            (case plus_operand l of
               Inl e \<Rightarrow> Inl e
             | Inr n \<Rightarrow> forEach_battery rest (totalLevel + n, count + 1))
          else forEach_battery rest (totalLevel, count))"

definition combinedLevel :: "jsval list \<Rightarrow> error + rat" where
  "combinedLevel bs =
     (case forEach_battery bs (0, 0) of
        Inl e \<Rightarrow> Inl e
      | Inr (totalLevel, count) \<Rightarrow>
          Inr (if count > 0 then totalLevel / of_nat count else 0))"

definition updateBatteries :: "jsval list \<Rightarrow> error + gauge_style" where
  "updateBatteries bs =
     (case combinedLevel bs of Inl e \<Rightarrow> Inl e | Inr l \<Rightarrow> Inr (updateGauge l))"



section \<open>The server side: environment\<close>

text \<open>
  What the server takes from outside the repository: the engine's conversion of a number to
  a string, Node's \<^verbatim>\<open>crypto\<close> HMAC (key, message, digest in base64), the two credentials
  of \<^verbatim>\<open>process.env\<close> (absent when not configured), the clock (\<open>clock w n\<close> is what the
  \<open>n\<close>-th reading of \<^verbatim>\<open>Date.now()\<close> returns) and the vendor's service behind
  \<^verbatim>\<open>axios.get\<close> (\<open>http_get w n r\<close> is the outcome of the \<open>n\<close>-th request, \<open>r\<close>: the
  response body for a 2xx status, the rejection otherwise).
\<close>

record request =
  req_url :: string
  req_headers :: "(string \<times> string option) list"

record world =
  number_to_string :: "rat \<Rightarrow> string"
  hmac_sha256_base64 :: "string \<Rightarrow> string \<Rightarrow> string"
  ACCESS_KEY :: "string option"
  SECRET_KEY :: "string option"
  clock :: "nat \<Rightarrow> int"
  http_get :: "nat \<Rightarrow> request \<Rightarrow> error + jsval"

definition RENOGY_BASE_URL :: string where
  "RENOGY_BASE_URL = ''https://openapi.renogy.com''"

text \<open>\<^verbatim>\<open>Array.prototype.join\<close> on strings.\<close>

fun join :: "string \<Rightarrow> string list \<Rightarrow> string" where
  "join sep [] = []"
| "join sep [x] = x"
| "join sep (x # y # ys) = x @ sep @ join sep (y # ys)"

text \<open>
  ToString, as a template literal \<^verbatim>\<open>${v}\<close> and \<^verbatim>\<open>URLSearchParams\<close> apply it: an array
  joins its elements with commas, null and undefined elements as empty strings.
\<close>

fun js_to_string :: "(rat \<Rightarrow> string) \<Rightarrow> jsval \<Rightarrow> string" where
  "js_to_string nts Undefined = ''undefined''"
| "js_to_string nts Null = ''null''"
| "js_to_string nts (Bool b) = (if b then ''true'' else ''false'')"
| "js_to_string nts (Num n) = nts n"
| "js_to_string nts (Str s) = s"
| "js_to_string nts (Arr xs) =
     join '','' (map (\<lambda>x. if x = Undefined \<or> x = Null then [] else js_to_string nts x) xs)"
| "js_to_string nts (Obj kvs) = ''[object Object]''"

subsection \<open>\<^verbatim>\<open>JSON.stringify\<close>\<close>

definition hex_lower :: "nat \<Rightarrow> char" where
  "hex_lower n = ''0123456789abcdef'' ! (n mod 16)"

definition hex_upper :: "nat \<Rightarrow> char" where
  "hex_upper n = ''0123456789ABCDEF'' ! (n mod 16)"

text \<open>
  QuoteJSONString: the quotation mark and the backslash are escaped with a backslash, the
  control characters below 0x20 by their short form or as \<^verbatim>\<open>\u00xx\<close>.
\<close>

definition short_escape :: "char \<Rightarrow> char option" where
  "short_escape c =
     (if c = CHR 0x22 then Some (CHR 0x22)
      else if c = CHR 0x5C then Some (CHR 0x5C)
      else if c = CHR 0x08 then Some CHR ''b''
      else if c = CHR 0x0C then Some CHR ''f''
      else if c = CHR 0x0A then Some CHR ''n''
      else if c = CHR 0x0D then Some CHR ''r''
      else if c = CHR 0x09 then Some CHR ''t''
      else None)"

definition is_control :: "char \<Rightarrow> bool" where
  "is_control c = ((of_char c :: nat) < 0x20)"

definition json_escape :: "char \<Rightarrow> string" where
  "json_escape c =
     (case short_escape c of
        Some x \<Rightarrow> [CHR 0x5C, x]
      | None \<Rightarrow>
          if is_control c then
            [CHR 0x5C, CHR ''u'', CHR ''0'', CHR ''0'',
             hex_lower (of_char c div 16), hex_lower (of_char c)]
          else [c])"

definition json_quote :: "string \<Rightarrow> string" where
  "json_quote s = CHR 0x22 # concat (map json_escape s) @ [CHR 0x22]"

text \<open>
  A property whose value is undefined is left out of an object; an undefined element of an
  array is written \<^verbatim>\<open>null\<close>.
\<close>

fun json_stringify :: "(rat \<Rightarrow> string) \<Rightarrow> jsval \<Rightarrow> string" where
  "json_stringify nts Undefined = ''null''"
| "json_stringify nts Null = ''null''"
| "json_stringify nts (Bool b) = (if b then ''true'' else ''false'')"
| "json_stringify nts (Num n) = nts n"
| "json_stringify nts (Str s) = json_quote s"
| "json_stringify nts (Arr xs) = ''['' @ join '','' (map (json_stringify nts) xs) @ '']''"
| "json_stringify nts (Obj kvs) =
     ''{'' @ join '',''
        (map (\<lambda>(k, v). json_quote k @ '':'' @ json_stringify nts v)
           (filter (\<lambda>(k, v). v \<noteq> Undefined) kvs)) @ ''}''"

text \<open>
  \<^verbatim>\<open>
  function getCacheKey(endpoint, params) {
    return `${endpoint}:${JSON.stringify(params)}`;
  }
  \<close>
  \<open>params\<close> is an object, given by its properties.
\<close>

definition getCacheKey :: "world \<Rightarrow> string \<Rightarrow> (string \<times> jsval) list \<Rightarrow> string" where
  "getCacheKey w endpoint params =
     endpoint @ '':'' @ json_stringify (number_to_string w) (Obj params)"

subsection \<open>\<^verbatim>\<open>new URLSearchParams(params).toString()\<close>\<close>

text \<open>
  The application/x-www-form-urlencoded serializer: letters, digits and \<^verbatim>\<open>*-._\<close> stay,
  a space becomes \<^verbatim>\<open>+\<close>, every other byte is percent-encoded.
\<close>

definition form_encode_char :: "char \<Rightarrow> string" where
  "form_encode_char c =
     (if c = CHR '' '' then ''+''
      else if c \<in> set ''ABCDEFGHIJKLMNOPQRSTUVWXYZabcdefghijklmnopqrstuvwxyz0123456789*-._''
        then [c]
      else [CHR ''%'', hex_upper (of_char c div 16), hex_upper (of_char c)])"

definition form_encode :: "string \<Rightarrow> string" where
  "form_encode s = concat (map form_encode_char s)"

definition URLSearchParams_toString :: "world \<Rightarrow> (string \<times> jsval) list \<Rightarrow> string" where
  "URLSearchParams_toString w params =
     join ''&'' (map (\<lambda>(k, v). form_encode k @ ''='' @
                       form_encode (js_to_string (number_to_string w) v)) params)"

subsection \<open>Signing\<close>

text \<open>
  \<^verbatim>\<open>
  function calcSign(url, paramStr, ts, secretKey) {
    const strToSign = `${ts}.${url}.${paramStr}`;
    const hmac = crypto.createHmac('sha256', secretKey);
    hmac.update(strToSign);
    return hmac.digest('base64');
  }
  \<close>
  The Hmac object is its key and the data it has been fed; \<^verbatim>\<open>createHmac\<close> throws when
  the key is undefined.
\<close>

record hmac =
  hmac_key :: string
  hmac_data :: string

definition createHmac :: "string option \<Rightarrow> error + hmac" where
  "createHmac key =
     (case key of
        None \<Rightarrow>
          Inl (TypeError (''The '' @ [CHR 0x22] @ ''key'' @ [CHR 0x22] @
            '' argument must be of type string or an instance of ArrayBuffer, Buffer, TypedArray, DataView, KeyObject, or CryptoKey. Received undefined''))
      | Some k \<Rightarrow> Inr \<lparr>hmac_key = k, hmac_data = []\<rparr>)"

definition hmac_update :: "hmac \<Rightarrow> string \<Rightarrow> hmac" where
  "hmac_update h d = h\<lparr>hmac_data := hmac_data h @ d\<rparr>"

definition hmac_digest_base64 :: "world \<Rightarrow> hmac \<Rightarrow> string" where
  "hmac_digest_base64 w h = hmac_sha256_base64 w (hmac_key h) (hmac_data h)"

definition calcSign :: "world \<Rightarrow> string \<Rightarrow> string \<Rightarrow> int \<Rightarrow> string option \<Rightarrow> error + string" where
  "calcSign w endpoint paramStr ts secretKey =
     (let strToSign = number_to_string w (of_int ts) @ ''.'' @ endpoint @ ''.'' @ paramStr
      in case createHmac secretKey of
           Inl e \<Rightarrow> Inl e
         | Inr h \<Rightarrow> Inr (hmac_digest_base64 w (hmac_update h strToSign)))"

subsection \<open>The upstream client\<close>

text \<open>
  The state of the server process: the cache, the number of clock readings taken so far,
  and the requests sent to the vendor so far, oldest first.
\<close>

record server_state =
  cache :: cache
  ticks :: nat
  calls :: "request list"

text \<open>
  \<^verbatim>\<open>
  async function renogyRequest(endpoint, params = {}) {
    const cacheKey = getCacheKey(endpoint, params);
    const cached = getFromCache(cacheKey);
    if (cached) { console.log(`Cache hit: ${cacheKey}`); return cached; }
    const timestamp = Date.now();
    const url = endpoint;
    const paramStr = new URLSearchParams(params).toString();
    const signature = calcSign(url, paramStr, timestamp, SECRET_KEY);
    const fullUrl = `${RENOGY_BASE_URL}${endpoint}${paramStr ? '?' + paramStr : ''}`;
    try {
      const response = await axios.get(fullUrl, {
        headers: { 'Access-Key': ACCESS_KEY, 'Timestamp': timestamp.toString(),
                   'Signature': signature } });
      setCache(cacheKey, response.data);
      return response.data;
    } catch (error) { console.error(...); throw error; }
  }
  \<close>
  A rejected promise is \<open>Inl\<close>. One clock reading is counted for the lookup (whether or not
  an entry is there to be dated), one for the timestamp and one for the store.
\<close>

definition renogyRequest ::
  "world \<Rightarrow> string \<Rightarrow> (string \<times> jsval) list \<Rightarrow> server_state \<Rightarrow> (error + jsval) \<times> server_state"
where
  "renogyRequest w endpoint params s =
     (let cacheKey = getCacheKey w endpoint params;
          (cached, c1) = getFromCache (clock w (ticks s)) cacheKey (cache s);
          s1 = s\<lparr>cache := c1, ticks := ticks s + 1\<rparr>
      in if truthy cached then (Inr cached, s1)
         else
           let ts = clock w (ticks s1);
               s2 = s1\<lparr>ticks := ticks s1 + 1\<rparr>;
               paramStr = URLSearchParams_toString w params
           in case calcSign w endpoint paramStr ts (SECRET_KEY w) of
                Inl err \<Rightarrow> (Inl err, s2)
              | Inr signature \<Rightarrow>
                  let fullUrl = RENOGY_BASE_URL @ endpoint @
                                  (if paramStr \<noteq> [] then ''?'' @ paramStr else []);
                      r = \<lparr>req_url = fullUrl,
                           req_headers =
                             [(''Access-Key'', ACCESS_KEY w),
                              (''Timestamp'', Some (number_to_string w (of_int ts))),
                              (''Signature'', Some signature)]\<rparr>;
                      s3 = s2\<lparr>calls := calls s2 @ [r]\<rparr>
                  in case http_get w (length (calls s2)) r of
                       Inl err \<Rightarrow> (Inl err, s3)
                     | Inr response_data \<Rightarrow>
                         (Inr response_data,
                          s3\<lparr>cache := setCache (clock w (ticks s3)) cacheKey response_data
                                        (cache s3),
                             ticks := ticks s3 + 1\<rparr>))"

subsection \<open>The aggregator\<close>

text \<open>
  The route \<^verbatim>\<open>/api/dashboard\<close> calls \<^verbatim>\<open>renogyRequest(endpoint)\<close> many times. It is
  written here over any such function \<open>req\<close> on any state, so that what is proved of it
  does not depend on how a request is answered. The promises of one \<^verbatim>\<open>Promise.all\<close>
  are run one after the other, from the left.
\<close>

type_synonym 's requester = "string \<Rightarrow> 's \<Rightarrow> (error + jsval) \<times> 's"

text \<open>
  The own properties an object spread \<^verbatim>\<open>{...v}\<close> copies: those of an object, the indexed
  elements of an array or a string, none of any other value.
\<close>

fun spread :: "(rat \<Rightarrow> string) \<Rightarrow> jsval \<Rightarrow> (string \<times> jsval) list" where
  "spread nts (Obj kvs) = kvs"
| "spread nts (Arr xs) = map (\<lambda>i. (nts (of_nat i), xs ! i)) [0..<length xs]"
| "spread nts (Str s) = map (\<lambda>i. (nts (of_nat i), Str [s ! i])) [0..<length s]"
| "spread nts v = []"

text \<open>
  The two object literals of the sub-device callback:
  \<^verbatim>\<open>{ ...subDevice, latestData: subLatest.data || {}, alarms: subAlarms || [] }\<close> and
  \<^verbatim>\<open>{ ...subDevice, latestData: {}, alarms: [], error: err.message }\<close>.
\<close>

definition sub_enriched :: "(rat \<Rightarrow> string) \<Rightarrow> jsval \<Rightarrow> jsval \<Rightarrow> jsval \<Rightarrow> jsval" where
  "sub_enriched nts subDevice latestData alarms =
     Obj (AList.update ''alarms'' alarms
           (AList.update ''latestData'' latestData (spread nts subDevice)))"

definition sub_failed :: "(rat \<Rightarrow> string) \<Rightarrow> jsval \<Rightarrow> error \<Rightarrow> jsval" where
  "sub_failed nts subDevice err =
     Obj (AList.update ''error'' (Str (message err))
           (AList.update ''alarms'' (Arr [])
             (AList.update ''latestData'' (Obj []) (spread nts subDevice))))"

text \<open>
  \<^verbatim>\<open>
  async (subDevice) => {
    try {
      const [subLatest, subAlarms] = await Promise.all([
        renogyRequest(`/device/data/latest/${subDevice.deviceId}`).catch(() => ({ data: {} })),
        renogyRequest(`/device/alarm/${subDevice.deviceId}`).catch(() => [])
      ]);
      return { ...subDevice, latestData: subLatest.data || {}, alarms: subAlarms || [] };
    } catch (err) {
      return { ...subDevice, latestData: {}, alarms: [], error: err.message };
    }
  }
  \<close>
  The \<^verbatim>\<open>catch\<close> block is reached by the two exceptions the \<^verbatim>\<open>try\<close> block can raise:
  the read of \<^verbatim>\<open>subDevice.deviceId\<close> and the read of \<^verbatim>\<open>subLatest.data\<close>.
\<close>

definition enrichSub :: "(rat \<Rightarrow> string) \<Rightarrow> 's requester \<Rightarrow> jsval \<Rightarrow> 's \<Rightarrow> jsval \<times> 's" where
  "enrichSub nts req subDevice s =
     (case get_prop subDevice ''deviceId'' of
        Inl err \<Rightarrow> (sub_failed nts subDevice err, s)
      | Inr deviceId \<Rightarrow>
          let (r1, s1) = req (''/device/data/latest/'' @ js_to_string nts deviceId) s;
              subLatest = (case r1 of Inl _ \<Rightarrow> Obj [(''data'', Obj [])] | Inr v \<Rightarrow> v);
              (r2, s2) = req (''/device/alarm/'' @ js_to_string nts deviceId) s1;
              subAlarms = (case r2 of Inl _ \<Rightarrow> Arr [] | Inr v \<Rightarrow> v)
          in case get_prop subLatest ''data'' of
               Inl err \<Rightarrow> (sub_failed nts subDevice err, s2)
             | Inr d \<Rightarrow>
                 (sub_enriched nts subDevice (js_or d (Obj [])) (js_or subAlarms (Arr [])), s2))"

text \<open>\<^verbatim>\<open>device.sublist.map(async (subDevice) => ...)\<close> under \<^verbatim>\<open>Promise.all\<close>.\<close>

fun enrichSublist ::
  "(rat \<Rightarrow> string) \<Rightarrow> 's requester \<Rightarrow> jsval list \<Rightarrow> 's \<Rightarrow> jsval list \<times> 's"
where
  "enrichSublist nts req [] s = ([], s)"
| "enrichSublist nts req (subDevice # rest) s =
     (let (r, s1) = enrichSub nts req subDevice s;
          (rs, s2) = enrichSublist nts req rest s1
      in (r # rs, s2))"

text \<open>
  \<^verbatim>\<open>if (device.sublist && device.sublist.length > 0) { ... device.sublist.map(...) }\<close>:
  a non-empty array is mapped over; a value that is falsy, has no \<^verbatim>\<open>length\<close> or has a
  \<^verbatim>\<open>length\<close> that is not above 0 is skipped; a non-empty string, or an object with a
  positive \<^verbatim>\<open>length\<close>, has no method \<^verbatim>\<open>map\<close>. An object whose \<^verbatim>\<open>length\<close> is a string or
  an array is compared after a conversion from string to number, which is outside the
  fragment.
\<close>

datatype sublist_plan = Skip | MapOver "jsval list" | NotAFunction | Outside

fun plan_sublist :: "jsval \<Rightarrow> sublist_plan" where
  "plan_sublist (Arr xs) = (if length xs > 0 then MapOver xs else Skip)"
| "plan_sublist (Str s) = (if s \<noteq> [] then NotAFunction else Skip)"
| "plan_sublist (Obj kvs) =
     (case map_of kvs ''length'' of
        Some (Num n) \<Rightarrow> if n > 0 then NotAFunction else Skip
      | Some (Bool b) \<Rightarrow> if b then NotAFunction else Skip
      | Some (Str l) \<Rightarrow> Outside
      | Some (Arr l) \<Rightarrow> Outside
      | _ \<Rightarrow> Skip)"
| "plan_sublist v = Skip"

text \<open>
  The two object literals of the device callback:
  \<^verbatim>\<open>{ ...device, latestData: latest.data || {}, alarms: alarms || [], sublist: sublistWithData }\<close>
  and \<^verbatim>\<open>{ ...device, latestData: {}, alarms: [], sublist: [], error: err.message }\<close>.
\<close>

definition device_enriched ::
  "(rat \<Rightarrow> string) \<Rightarrow> jsval \<Rightarrow> jsval \<Rightarrow> jsval \<Rightarrow> jsval list \<Rightarrow> jsval" where
  "device_enriched nts device latestData alarms sublistWithData =
     Obj (AList.update ''sublist'' (Arr sublistWithData)
           (AList.update ''alarms'' alarms
             (AList.update ''latestData'' latestData (spread nts device))))"

definition device_failed :: "(rat \<Rightarrow> string) \<Rightarrow> jsval \<Rightarrow> error \<Rightarrow> jsval" where
  "device_failed nts device err =
     Obj (AList.update ''error'' (Str (message err))
           (AList.update ''sublist'' (Arr [])
             (AList.update ''alarms'' (Arr [])
               (AList.update ''latestData'' (Obj []) (spread nts device)))))"

definition finishDevice ::
  "(rat \<Rightarrow> string) \<Rightarrow> jsval \<Rightarrow> jsval \<Rightarrow> jsval \<Rightarrow> jsval list \<Rightarrow> jsval" where
  "finishDevice nts device latest alarms sublistWithData =
     (case get_prop latest ''data'' of
        Inl err \<Rightarrow> device_failed nts device err
      | Inr d \<Rightarrow>
          device_enriched nts device (js_or d (Obj [])) (js_or alarms (Arr [])) sublistWithData)"

text \<open>
  \<^verbatim>\<open>
  async (device) => {
    try {
      const [latest, alarms] = await Promise.all([
        renogyRequest(`/device/data/latest/${device.deviceId}`).catch(() => ({ data: {} })),
        renogyRequest(`/device/alarm/${device.deviceId}`).catch(() => [])
      ]);
      let sublistWithData = [];
      if (device.sublist && device.sublist.length > 0) {
        sublistWithData = await Promise.all(device.sublist.map(async (subDevice) => ...));
      }
      return { ...device, latestData: latest.data || {}, alarms: alarms || [],
               sublist: sublistWithData };
    } catch (err) {
      return { ...device, latestData: {}, alarms: [], sublist: [], error: err.message };
    }
  }
  \<close>
  \<open>Inl\<close> is \<open>Unsupported\<close> only: every exception is caught.
\<close>

definition enrichDevice ::
  "(rat \<Rightarrow> string) \<Rightarrow> 's requester \<Rightarrow> jsval \<Rightarrow> 's \<Rightarrow> (error + jsval) \<times> 's" where
  "enrichDevice nts req device s =
     (case get_prop device ''deviceId'' of
        Inl err \<Rightarrow> (Inr (device_failed nts device err), s)
      | Inr deviceId \<Rightarrow>
          let (r1, s1) = req (''/device/data/latest/'' @ js_to_string nts deviceId) s;
              latest = (case r1 of Inl _ \<Rightarrow> Obj [(''data'', Obj [])] | Inr v \<Rightarrow> v);
              (r2, s2) = req (''/device/alarm/'' @ js_to_string nts deviceId) s1;
              alarms = (case r2 of Inl _ \<Rightarrow> Arr [] | Inr v \<Rightarrow> v)
          in case get_prop device ''sublist'' of
               Inl err \<Rightarrow> (Inr (device_failed nts device err), s2)
             | Inr sl \<Rightarrow>
                 (case plan_sublist sl of
                    Skip \<Rightarrow> (Inr (finishDevice nts device latest alarms []), s2)
                  | MapOver subDevices \<Rightarrow>
                      let (sublistWithData, s3) = enrichSublist nts req subDevices s2
                      in (Inr (finishDevice nts device latest alarms sublistWithData), s3)
                  | NotAFunction \<Rightarrow>
                      (Inr (device_failed nts device
                              (TypeError ''device.sublist.map is not a function'')), s2)
                  | Outside \<Rightarrow> (Inl Unsupported, s2)))"

text \<open>\<^verbatim>\<open>devices.map(async (device) => ...)\<close> under \<^verbatim>\<open>Promise.all\<close>.\<close>

fun enrichDevices ::
  "(rat \<Rightarrow> string) \<Rightarrow> 's requester \<Rightarrow> jsval list \<Rightarrow> 's \<Rightarrow> (error + jsval list) \<times> 's"
where
  "enrichDevices nts req [] s = (Inr [], s)"
| "enrichDevices nts req (device # rest) s =
     (case enrichDevice nts req device s of
        (Inl e, s1) \<Rightarrow> (Inl e, s1)
      | (Inr r, s1) \<Rightarrow>
          (case enrichDevices nts req rest s1 of
             (Inl e, s2) \<Rightarrow> (Inl e, s2)
           | (Inr rs, s2) \<Rightarrow> (Inr (r # rs), s2)))"

text \<open>
  \<^verbatim>\<open>
  res.status(error.response?.status || 500).json({
    error: 'Failed to fetch dashboard data',
    details: error.response?.data || error.message
  });
  \<close>
\<close>

record http_response =
  status :: int
  body :: jsval

definition error_envelope :: "string \<Rightarrow> error \<Rightarrow> http_response" where
  "error_envelope what err =
     \<lparr>status = (case err of HttpError m st b \<Rightarrow> if st \<noteq> 0 then st else 500 | _ \<Rightarrow> 500),
      body = Obj [(''error'', Str what),
                  (''details'', (case err of
                                   HttpError m st b \<Rightarrow> js_or b (Str m)
                                 | _ \<Rightarrow> Str (message err)))]\<rparr>"

text \<open>
  \<^verbatim>\<open>
  app.get('/api/dashboard', async (req, res) => {
    try {
      const devices = await renogyRequest('/device/list');
      const dashboardData = await Promise.all(devices.map(async (device) => ...));
      res.json(dashboardData);
    } catch (error) { res.status(...).json({...}); }
  });
  \<close>
  A payload that is not an array has no method \<^verbatim>\<open>map\<close>.
\<close>

definition api_dashboard ::
  "(rat \<Rightarrow> string) \<Rightarrow> 's requester \<Rightarrow> 's \<Rightarrow> (error + http_response) \<times> 's" where
  "api_dashboard nts req s =
     (case req ''/device/list'' s of
        (Inl err, s1) \<Rightarrow> (Inr (error_envelope ''Failed to fetch dashboard data'' err), s1)
      | (Inr devices, s1) \<Rightarrow>
          (case devices of
             Arr ds \<Rightarrow>
               (case enrichDevices nts req ds s1 of
                  (Inl e, s2) \<Rightarrow> (Inl e, s2)
                | (Inr dashboardData, s2) \<Rightarrow>
                    (Inr \<lparr>status = 200, body = Arr dashboardData\<rparr>, s2))
           | _ \<Rightarrow>
               (case get_prop devices ''map'' of
                  Inl err \<Rightarrow>
                    (Inr (error_envelope ''Failed to fetch dashboard data'' err), s1)
                | Inr _ \<Rightarrow>
                    (Inr (error_envelope ''Failed to fetch dashboard data''
                            (TypeError ''devices.map is not a function'')), s1))))"

text \<open>The route as the server runs it: over \<^verbatim>\<open>renogyRequest(endpoint)\<close>, with the default \<^verbatim>\<open>params = {}\<close>.\<close>

definition dashboard :: "world \<Rightarrow> server_state \<Rightarrow> (error + http_response) \<times> server_state" where
  "dashboard w s = api_dashboard (number_to_string w) (\<lambda>endpoint. renogyRequest w endpoint []) s"

subsection \<open>The upstream client in the words of the specification\<close>

text \<open>
  The entry the cache holds for a key at the time of the lookup, when it is not older than
  the TTL; and the authenticated GET of a miss: base URL, endpoint and serialized
  parameters, with the access key, the timestamp and the signature of
  \<^verbatim>\<open>"{timestamp}.{path}.{paramString}"\<close> under the secret as headers.
\<close>

definition fresh_entry :: "world \<Rightarrow> string \<Rightarrow> server_state \<Rightarrow> jsval option" where
  "fresh_entry w key s =
     (case cache s key of
        None \<Rightarrow> None
      | Some e \<Rightarrow> if clock w (ticks s) - timestamp e \<le> 60000 then Some (data e) else None)"

definition signed_get ::
  "world \<Rightarrow> string \<Rightarrow> (string \<times> jsval) list \<Rightarrow> int \<Rightarrow> string \<Rightarrow> request" where
  "signed_get w endpoint params ts secret =
     (let paramString = URLSearchParams_toString w params;
          stamp = number_to_string w (of_int ts)
      in \<lparr>req_url = ''https://openapi.renogy.com'' @ endpoint @
                       (if paramString = [] then [] else ''?'' @ paramString),
          req_headers =
            [(''Access-Key'', ACCESS_KEY w),
             (''Timestamp'', Some stamp),
             (''Signature'',
              Some (hmac_sha256_base64 w secret
                      (stamp @ ''.'' @ endpoint @ ''.'' @ paramString)))]\<rparr>)"

section \<open>Telling cache keys apart\<close>

subsection \<open>Parameter values that \<^verbatim>\<open>JSON.stringify\<close> tells apart\<close>

text \<open>
  Whether undefined occurs in a value (as the value of a property or an element of an
  array, at any depth), and the numbers that occur in it. The numbers of a set are
  printable when the engine writes different numbers differently, each with at least one
  character and in the characters of a numeric literal only.
\<close>

fun has_undefined :: "jsval \<Rightarrow> bool" where
  "has_undefined Undefined = True"
| "has_undefined (Arr xs) = list_ex has_undefined xs"
| "has_undefined (Obj kvs) = list_ex (\<lambda>kv. has_undefined (snd kv)) kvs"
| "has_undefined v = False"

fun numbers :: "jsval \<Rightarrow> rat list" where
  "numbers (Num n) = [n]"
| "numbers (Arr xs) = concat (map numbers xs)"
| "numbers (Obj kvs) = concat (map (\<lambda>kv. numbers (snd kv)) kvs)"
| "numbers v = []"

definition number_chars :: "char set" where
  "number_chars = set ''0123456789+-.e''"

definition numbers_printable :: "(rat \<Rightarrow> string) \<Rightarrow> rat set \<Rightarrow> bool" where
  "numbers_printable nts N =
     (inj_on nts N \<and> (\<forall>q\<in>N. nts q \<noteq> [] \<and> set (nts q) \<subseteq> number_chars))"

text \<open>What may follow a value inside a JSON text: nothing, a comma or a closing bracket.\<close>

definition follows :: "string \<Rightarrow> bool" where
  "follows t = (case t of [] \<Rightarrow> True | c # u \<Rightarrow> c = CHR '','' \<or> c = CHR '']'' \<or> c = CHR ''}'')"

text \<open>The first character of a value's text tells the kind of the value.\<close>

datatype kind = KNull | KTrue | KFalse | KNum | KStr | KArr | KObj

fun kind_of :: "jsval \<Rightarrow> kind" where
  "kind_of Undefined = KNull"
| "kind_of Null = KNull"
| "kind_of (Bool b) = (if b then KTrue else KFalse)"
| "kind_of (Num n) = KNum"
| "kind_of (Str s) = KStr"
| "kind_of (Arr xs) = KArr"
| "kind_of (Obj kvs) = KObj"

definition kind_of_char :: "char \<Rightarrow> kind" where
  "kind_of_char c =
     (if c = CHR ''n'' then KNull else if c = CHR ''t'' then KTrue
      else if c = CHR ''f'' then KFalse else if c = CHR 0x22 then KStr
      else if c = CHR ''['' then KArr else if c = CHR ''{'' then KObj else KNum)"

subsection \<open>Scanning a JSON text\<close>

text \<open>
  A scanner that follows a text from the left: it is outside any string, inside a string,
  or inside a string just after a backslash, and it counts the brackets open so far. A text
  is scanned safely from a state when, before every character, at least one bracket is
  open and no backslash is met outside a string.
\<close>

datatype scan_mode = Outside | Inside | Escaped

fun scan_step :: "scan_mode \<times> int \<Rightarrow> char \<Rightarrow> scan_mode \<times> int" where
  "scan_step (Outside, d) c =
     (if c = CHR 0x22 then (Inside, d)
      else if c = CHR ''{'' \<or> c = CHR ''['' then (Outside, d + 1)
      else if c = CHR ''}'' \<or> c = CHR '']'' then (Outside, d - 1)
      else (Outside, d))"
| "scan_step (Inside, d) c =
     (if c = CHR 0x22 then (Outside, d) else if c = CHR 0x5C then (Escaped, d) else (Inside, d))"
| "scan_step (Escaped, d) c = (Inside, d)"

definition scan_run :: "scan_mode \<times> int \<Rightarrow> string \<Rightarrow> scan_mode \<times> int" where
  "scan_run st s = foldl scan_step st s"

fun scan_safe :: "scan_mode \<times> int \<Rightarrow> string \<Rightarrow> bool" where
  "scan_safe st [] = True"
| "scan_safe st (c # cs) = (snd st \<ge> 1 \<and> \<not> (fst st = Outside \<and> c = CHR 0x5C) \<and> scan_safe (scan_step st c) cs)"

section \<open>Example data\<close>


definition example_subs :: "jsval list" where
  "example_subs =
     [Obj [(''name'', Str ''Controller House''), (''category'', Str ''Controller'')],
      Obj [(''name'', Str ''B1''), (''category'', Str ''Battery'')],
      Obj [(''name'', Str ''Controller Shed''), (''category'', Str ''Controller'')],
      Obj [(''name'', Str ''B2''), (''category'', Str ''Battery'')]]"

definition example_hub :: jsval where
  "example_hub = Obj [(''deviceId'', Str ''hub''), (''sublist'', Arr example_subs)]"

text \<open>
  An environment in which the vendor answers the device list (one hub with the
  sub-devices \<^verbatim>\<open>a\<close> and \<^verbatim>\<open>b\<close>) and the two calls for \<^verbatim>\<open>hub\<close> and for \<^verbatim>\<open>a\<close>, and every
  other request fails; numbers print as a fixed digit (no number is printed in the
  examples but timestamps), and the HMAC is a stand-in that joins key and message.
\<close>

definition example_devices :: jsval where
  "example_devices =
     Arr [Obj [(''deviceId'', Str ''hub''),
               (''sublist'', Arr [Obj [(''deviceId'', Str ''a''), (''category'', Str ''Battery'')],
                                  Obj [(''deviceId'', Str ''b''), (''category'', Str ''Battery'')]])]]"

definition example_http :: "nat \<Rightarrow> request \<Rightarrow> error + jsval" where
  "example_http n r =
     (if req_url r = ''https://openapi.renogy.com/device/list'' then Inr example_devices
      else if req_url r = ''https://openapi.renogy.com/device/data/latest/hub'' then
        Inr (Obj [(''data'', Obj [])])
      else if req_url r = ''https://openapi.renogy.com/device/alarm/hub'' then Inr (Arr [])
      else if req_url r = ''https://openapi.renogy.com/device/data/latest/a'' then
        Inr (Obj [(''data'', Obj [(''batteryLevel'', Num 72)])])
      else if req_url r = ''https://openapi.renogy.com/device/alarm/a'' then
        Inr (Arr [Str ''low voltage''])
      else Inl (NetworkError ''timeout''))"

definition example_world :: world where
  "example_world =
     \<lparr>number_to_string = (\<lambda>n. ''7''),
      hmac_sha256_base64 = (\<lambda>k m. k @ ''|'' @ m),
      ACCESS_KEY = Some ''access'',
      SECRET_KEY = Some ''secret'',
      clock = (\<lambda>n. 1000 + int n),
      http_get = example_http\<rparr>"

definition initial_state :: server_state where
  "initial_state = \<lparr>cache = Map.empty, ticks = 0, calls = []\<rparr>"

text \<open>The same environment with the vendor unreachable, and with no secret key configured.\<close>

definition offline_world :: world where
  "offline_world = example_world\<lparr>http_get := (\<lambda>n r. Inl (NetworkError ''timeout''))\<rparr>"

definition unconfigured_world :: world where
  "unconfigured_world = example_world\<lparr>SECRET_KEY := None\<rparr>"

text \<open>A cache that holds the number 0 for the device list, stored at time 990.\<close>

definition falsy_cached :: server_state where
  "falsy_cached =
     \<lparr>cache = [''/device/list:{}'' \<mapsto> \<lparr>data = Num 0, timestamp = 990\<rparr>], ticks = 0, calls = []\<rparr>"




text \<open>
  The parameters of a history request, with the year as a number and as the string of a
  query, and an engine that prints the numbers 2024, 11 and 0 in decimal.
\<close>

definition history_world :: world where
  "history_world =
     example_world\<lparr>number_to_string :=
       (\<lambda>n. if n = 2024 then ''2024'' else if n = 11 then ''11'' else ''0'')\<rparr>"

definition history_params :: "jsval \<Rightarrow> (string \<times> jsval) list" where
  "history_params year = [(''year'', year), (''month'', Num 11), (''utcOffsetHours'', Num 0)]"


section \<open>Cache: lazy expiry\<close>

lemma getFromCache_absent: "c key = None \<Longrightarrow> getFromCache now key c = (Null, c)"
  by (simp add: getFromCache_def)

lemma getFromCache_fresh:
  "c key = Some e \<Longrightarrow> now - timestamp e \<le> CACHE_TTL \<Longrightarrow> getFromCache now key c = (data e, c)"
  by (simp add: getFromCache_def)

lemma getFromCache_stale:
  "c key = Some e \<Longrightarrow> now - timestamp e > CACHE_TTL \<Longrightarrow>
   getFromCache now key c = (Null, c(key := None))"
  by (simp add: getFromCache_def)

text \<open>
  C4. A \<open>setCache key v\<close> at time \<open>t0\<close> followed by a \<open>getFromCache key\<close> at a time \<open>t1\<close>
  with \<open>t1 - t0 \<le> 60000\<close> returns the stored value \<open>v\<close>. A lookup at a time \<open>t1\<close> with
  \<open>t1 - t0 > 60000\<close> returns null (absent) and deletes the entry, so that a further lookup,
  at any time \<open>t2\<close>, finds no entry and returns null again, leaving the map as it is.
\<close>

theorem cache_set_get_ttl:
  "(t1 - t0 \<le> 60000 \<longrightarrow>
      fst (getFromCache t1 key (setCache t0 key v c)) = v) \<and>
   (t1 - t0 > 60000 \<longrightarrow>
      fst (getFromCache t1 key (setCache t0 key v c)) = Null \<and>
      snd (getFromCache t1 key (setCache t0 key v c)) key = None \<and>
      getFromCache t2 key (snd (getFromCache t1 key (setCache t0 key v c)))
        = (Null, snd (getFromCache t1 key (setCache t0 key v c))))"
  by (simp add: getFromCache_def setCache_def CACHE_TTL_def)

theorem cache_set_get_ttl_witness:
  "(1000 + 60000) - (1000::int) \<le> 60000 \<and>
   fst (getFromCache 61000 ''k'' (setCache 1000 ''k'' (Num 7) Map.empty)) = Num 7 \<and>
   (1000 + 60001) - (1000::int) > 60000 \<and>
   fst (getFromCache 61001 ''k'' (setCache 1000 ''k'' (Num 7) Map.empty)) = Null \<and>
   snd (getFromCache 61001 ''k'' (setCache 1000 ''k'' (Num 7) Map.empty)) ''k'' = None"
  using cache_set_get_ttl [of 61000 1000 "''k''" "Num 7" Map.empty 0]
        cache_set_get_ttl [of 61001 1000 "''k''" "Num 7" Map.empty 0]
  by simp

section \<open>View model: gauge colour\<close>

text \<open>
  C7. The gauge colour (the \<open>stroke\<close> that \<open>updateGauge\<close> assigns) is green for a
  percentage of at least 50, yellow for a percentage from 25 to 49, and red for a
  percentage below 25; so 50 is green, 49 and 25 are yellow, 24 and 0 are red. The three
  colours are different strings.
\<close>

theorem gauge_color_thresholds:
  "(percentage \<ge> 50 \<longrightarrow> stroke (updateGauge percentage) = green) \<and>
   (25 \<le> percentage \<and> percentage \<le> 49 \<longrightarrow> stroke (updateGauge percentage) = yellow) \<and>
   (percentage < 25 \<longrightarrow> stroke (updateGauge percentage) = red) \<and>
   stroke (updateGauge 50) = green \<and> stroke (updateGauge 49) = yellow \<and>
   stroke (updateGauge 25) = yellow \<and> stroke (updateGauge 24) = red \<and>
   stroke (updateGauge 0) = red \<and> green \<noteq> yellow \<and> yellow \<noteq> red \<and> green \<noteq> red"
  by (simp add: updateGauge_def Let_def green_def yellow_def red_def)

theorem gauge_color_thresholds_witness:
  "(72::rat) \<ge> 50 \<and> stroke (updateGauge 72) = ''#4caf50'' \<and>
   (25::rat) \<le> 30 \<and> (30::rat) \<le> 49 \<and> stroke (updateGauge 30) = ''#ffc107'' \<and>
   (10::rat) < 25 \<and> stroke (updateGauge 10) = ''#f44336''"
  using gauge_color_thresholds [of 72] gauge_color_thresholds [of 30]
        gauge_color_thresholds [of 10]
  by (simp add: green_def yellow_def red_def)

section \<open>View model: combined battery percentage\<close>




section \<open>View model: location classification\<close>

lemma prop_is_total:
  "d \<noteq> Null \<Longrightarrow> d \<noteq> Undefined \<Longrightarrow> prop_is k s d = Inr (get_prop d k = Inr (Str s))"
  by (cases d) (auto simp: prop_is_def split: option.splits)

lemma js_find_total:
  "\<forall>d\<in>set ds. d \<noteq> Null \<and> d \<noteq> Undefined \<Longrightarrow>
   js_find (prop_is k s) ds =
     Inr (case List.find (\<lambda>d. get_prop d k = Inr (Str s)) ds of
            None \<Rightarrow> Undefined | Some d \<Rightarrow> d)"
  by (induction ds) (auto simp: prop_is_total)

lemma js_filter_total:
  "\<forall>d\<in>set ds. d \<noteq> Null \<and> d \<noteq> Undefined \<Longrightarrow>
   js_filter (prop_is k s) ds = Inr (filter (\<lambda>d. get_prop d k = Inr (Str s)) ds)"
  by (induction ds) (auto simp: prop_is_total)

lemma find_hit:
  "x \<in> set ds \<Longrightarrow> P x \<Longrightarrow> \<exists>y. List.find P ds = Some y \<and> y \<in> set ds \<and> P y"
  by (induction ds) auto

text \<open>
  C8. For a dashboard payload whose first top-level device has a \<open>sublist\<close> array of device
  records (none of them null) among which one is named exactly "Controller House" and one
  exactly "Controller Shed", \<open>organizeDevices\<close> returns a house view whose controller is a
  sub-device named "Controller House" and whose batteries are all the sub-devices of
  category "Battery", in their order, and a shed view whose controller is a sub-device
  named "Controller Shed" and whose battery list is empty.
\<close>

theorem organizeDevices_locations:
  assumes main: "get_prop mainDevice ''sublist'' = Inr (Arr subs)"
      and objs: "\<forall>d\<in>set subs. d \<noteq> Null \<and> d \<noteq> Undefined"
      and h: "\<exists>h\<in>set subs. get_prop h ''name'' = Inr (Str ''Controller House'')"
      and s: "\<exists>s\<in>set subs. get_prop s ''name'' = Inr (Str ''Controller Shed'')"
  shows "\<exists>org. organizeDevices (Some (mainDevice # others)) = Inr (Some org) \<and>
           controller (house org) \<in> set subs \<and>
           get_prop (controller (house org)) ''name'' = Inr (Str ''Controller House'') \<and>
           batteries (house org) =
             filter (\<lambda>d. get_prop d ''category'' = Inr (Str ''Battery'')) subs \<and>
           name (house org) = ''House'' \<and>
           controller (shed org) \<in> set subs \<and>
           get_prop (controller (shed org)) ''name'' = Inr (Str ''Controller Shed'') \<and>
           batteries (shed org) = [] \<and>
           name (shed org) = ''Shed''"
proof -
  let ?isH = "\<lambda>d. get_prop d ''name'' = Inr (Str ''Controller House'')"
  let ?isS = "\<lambda>d. get_prop d ''name'' = Inr (Str ''Controller Shed'')"
  let ?isB = "\<lambda>d. get_prop d ''category'' = Inr (Str ''Battery'')"
  from h obtain hc where hc: "List.find ?isH subs = Some hc" "hc \<in> set subs" "?isH hc"
    using find_hit [where P = ?isH] by blast
  from s obtain sc where sc: "List.find ?isS subs = Some sc" "sc \<in> set subs" "?isS sc"
    using find_hit [where P = ?isS] by blast
  have "organizeDevices (Some (mainDevice # others)) =
        Inr (Some \<lparr>house = \<lparr>controller = hc, batteries = filter ?isB subs, name = ''House''\<rparr>,
                   shed = \<lparr>controller = sc, batteries = [], name = ''Shed''\<rparr>\<rparr>)"
    by (simp add: organizeDevices_def main js_or_def classify_def
        js_find_total [OF objs] js_filter_total [OF objs] hc(1) sc(1))
  with hc sc show ?thesis by simp
qed

theorem organizeDevices_locations_witness:
  "\<exists>org. organizeDevices (Some [example_hub]) = Inr (Some org) \<and>
     controller (house org) = example_subs ! 0 \<and>
     batteries (house org) = [example_subs ! 1, example_subs ! 3] \<and>
     controller (shed org) = example_subs ! 2 \<and>
     batteries (shed org) = []"
proof -
  have main: "get_prop example_hub ''sublist'' = Inr (Arr example_subs)"
    by (simp add: example_hub_def)
  have objs: "\<forall>d\<in>set example_subs. d \<noteq> Null \<and> d \<noteq> Undefined"
    by (simp add: example_subs_def)
  have h: "\<exists>h\<in>set example_subs. get_prop h ''name'' = Inr (Str ''Controller House'')"
    by (simp add: example_subs_def)
  have s: "\<exists>s\<in>set example_subs. get_prop s ''name'' = Inr (Str ''Controller Shed'')"
    by (simp add: example_subs_def)
  from organizeDevices_locations [OF main objs h s, of "[]"]
  obtain org where org: "organizeDevices (Some [example_hub]) = Inr (Some org)"
    "controller (house org) \<in> set example_subs"
    "get_prop (controller (house org)) ''name'' = Inr (Str ''Controller House'')"
    "batteries (house org) =
       filter (\<lambda>d. get_prop d ''category'' = Inr (Str ''Battery'')) example_subs"
    "controller (shed org) \<in> set example_subs"
    "get_prop (controller (shed org)) ''name'' = Inr (Str ''Controller Shed'')"
    "batteries (shed org) = []"
    by blast
  from org(2,3) have "controller (house org) = example_subs ! 0"
    by (auto simp: example_subs_def)
  moreover from org(5,6) have "controller (shed org) = example_subs ! 2"
    by (auto simp: example_subs_def)
  moreover from org(4) have "batteries (house org) = [example_subs ! 1, example_subs ! 3]"
    by (simp add: example_subs_def)
  ultimately show ?thesis using org(1,7) by blast
qed

section \<open>Signer\<close>

text \<open>
  C9. With a secret key, \<open>calcSign\<close> returns the base64 HMAC-SHA256 digest, under that key,
  of exactly the string made of the timestamp, a dot, the path, a dot and the parameter
  string; the signature is this function of the four inputs and of nothing else, so equal
  inputs give equal signatures. Without a key no signature is produced.
\<close>

theorem calcSign_hmac_of_string:
  "calcSign w path paramString ts (Some secret) =
     Inr (hmac_sha256_base64 w secret
            (number_to_string w (of_int ts) @ ''.'' @ path @ ''.'' @ paramString)) \<and>
   (\<exists>m. calcSign w path paramString ts None = Inl (TypeError m))"
  by (simp add: calcSign_def createHmac_def hmac_update_def hmac_digest_base64_def)

section \<open>Upstream client\<close>

lemma renogyRequest_hit:
  assumes "cache s (getCacheKey w endpoint params) = Some e"
      and "clock w (ticks s) - timestamp e \<le> CACHE_TTL"
      and "truthy (data e)"
  shows "renogyRequest w endpoint params s = (Inr (data e), s\<lparr>ticks := ticks s + 1\<rparr>)"
  using assms by (simp add: renogyRequest_def getFromCache_def Let_def)

lemma lookup_miss:
  assumes "fresh_entry w key s = None \<or> (\<exists>v. fresh_entry w key s = Some v \<and> \<not> truthy v)"
  shows "\<not> truthy (fst (getFromCache (clock w (ticks s)) key (cache s)))"
  using assms
  by (auto simp: fresh_entry_def getFromCache_def CACHE_TTL_def split: option.splits if_splits)

lemma renogyRequest_miss:
  assumes miss: "\<not> truthy (fst (getFromCache (clock w (ticks s)) (getCacheKey w endpoint params) (cache s)))"
      and key: "SECRET_KEY w = Some secret"
  shows "renogyRequest w endpoint params s =
     (let c1 = snd (getFromCache (clock w (ticks s)) (getCacheKey w endpoint params) (cache s));
          r = signed_get w endpoint params (clock w (ticks s + 1)) secret
      in case http_get w (length (calls s)) r of
           Inl err \<Rightarrow> (Inl err, s\<lparr>cache := c1, ticks := ticks s + 2, calls := calls s @ [r]\<rparr>)
         | Inr b \<Rightarrow>
             (Inr b, s\<lparr>cache := setCache (clock w (ticks s + 2)) (getCacheKey w endpoint params) b c1,
                       ticks := ticks s + 3, calls := calls s @ [r]\<rparr>))"
  using miss key
  by (simp add: renogyRequest_def Let_def split_beta calcSign_def createHmac_def
      hmac_update_def hmac_digest_base64_def signed_get_def RENOGY_BASE_URL_def
      split: sum.splits)

lemma renogyRequest_no_secret:
  assumes miss: "\<not> truthy (fst (getFromCache (clock w (ticks s)) (getCacheKey w endpoint params) (cache s)))"
      and key: "SECRET_KEY w = None"
  shows "calls (snd (renogyRequest w endpoint params s)) = calls s \<and>
         (\<exists>m. fst (renogyRequest w endpoint params s) = Inl (TypeError m))"
  using miss key
  by (simp add: renogyRequest_def Let_def split_beta calcSign_def createHmac_def)

text \<open>
  C3, amended. Let \<open>key\<close> be the cache key of \<open>(endpoint, params)\<close>. If the cache holds an
  entry for \<open>key\<close> that is not older than the TTL and whose payload is truthy, the request
  returns that payload and changes neither the cache nor the list of requests sent (only a
  clock reading is taken). Otherwise (no entry, an expired entry, or an entry with a falsy
  payload), and when a secret key is configured, exactly one request is sent: the signed
  GET with a timestamp read after the lookup; when it succeeds, its body is returned and
  stored under \<open>key\<close> with the time of the store, and when it fails, the failure is passed on.
\<close>

theorem renogyRequest_cache_or_signed_get:
  assumes "key = getCacheKey w endpoint params"
  shows "(\<forall>payload. fresh_entry w key s = Some payload \<and> truthy payload \<longrightarrow>
            renogyRequest w endpoint params s = (Inr payload, s\<lparr>ticks := ticks s + 1\<rparr>)) \<and>
         ((fresh_entry w key s = None \<or> (\<exists>v. fresh_entry w key s = Some v \<and> \<not> truthy v)) \<and>
          SECRET_KEY w = Some secret \<longrightarrow>
            calls (snd (renogyRequest w endpoint params s)) =
              calls s @ [signed_get w endpoint params (clock w (ticks s + 1)) secret] \<and>
            (\<forall>b. http_get w (length (calls s))
                    (signed_get w endpoint params (clock w (ticks s + 1)) secret) = Inr b \<longrightarrow>
                 fst (renogyRequest w endpoint params s) = Inr b \<and>
                 cache (snd (renogyRequest w endpoint params s)) key =
                   Some \<lparr>data = b, timestamp = clock w (ticks s + 2)\<rparr>) \<and>
            (\<forall>err. http_get w (length (calls s))
                    (signed_get w endpoint params (clock w (ticks s + 1)) secret) = Inl err \<longrightarrow>
                 fst (renogyRequest w endpoint params s) = Inl err))"
proof (intro conjI allI impI)
  fix payload
  assume h: "fresh_entry w key s = Some payload \<and> truthy payload"
  then obtain e where e: "cache s key = Some e" "clock w (ticks s) - timestamp e \<le> CACHE_TTL"
      "data e = payload"
    by (auto simp: fresh_entry_def CACHE_TTL_def split: option.splits if_splits)
  with h renogyRequest_hit [of s w endpoint params e] assms
  show "renogyRequest w endpoint params s = (Inr payload, s\<lparr>ticks := ticks s + 1\<rparr>)"
    by simp
next
  assume h: "(fresh_entry w key s = None \<or> (\<exists>v. fresh_entry w key s = Some v \<and> \<not> truthy v)) \<and>
             SECRET_KEY w = Some secret"
  then have miss: "\<not> truthy (fst (getFromCache (clock w (ticks s)) (getCacheKey w endpoint params) (cache s)))"
    using lookup_miss [of w key s] assms by simp
  note eq = renogyRequest_miss [OF miss, of secret]
  from h eq show "calls (snd (renogyRequest w endpoint params s)) =
      calls s @ [signed_get w endpoint params (clock w (ticks s + 1)) secret]"
    by (simp add: Let_def split: sum.splits)
  {
    fix b
    assume "http_get w (length (calls s))
              (signed_get w endpoint params (clock w (ticks s + 1)) secret) = Inr b"
    with h eq show "fst (renogyRequest w endpoint params s) = Inr b"
      by (simp add: Let_def)
  next
    fix b
    assume "http_get w (length (calls s))
              (signed_get w endpoint params (clock w (ticks s + 1)) secret) = Inr b"
    with h eq assms show "cache (snd (renogyRequest w endpoint params s)) key =
        Some \<lparr>data = b, timestamp = clock w (ticks s + 2)\<rparr>"
      by (simp add: Let_def setCache_def)
  next
    fix err
    assume "http_get w (length (calls s))
              (signed_get w endpoint params (clock w (ticks s + 1)) secret) = Inl err"
    with h eq show "fst (renogyRequest w endpoint params s) = Inl err"
      by (simp add: Let_def)
  }
qed

lemma getCacheKey_no_params: "getCacheKey w endpoint [] = endpoint @ '':{}''"
  by (simp add: getCacheKey_def)

lemma signed_get_example:
  "signed_get example_world ''/device/list'' [] 1001 ''secret'' =
     \<lparr>req_url = ''https://openapi.renogy.com/device/list'',
      req_headers = [(''Access-Key'', Some ''access''), (''Timestamp'', Some ''7''),
                     (''Signature'', Some ''secret|7./device/list.'')]\<rparr>"
  by (simp add: signed_get_def example_world_def URLSearchParams_toString_def)

lemma first_list_request:
  "renogyRequest example_world ''/device/list'' [] initial_state =
     (Inr example_devices,
      \<lparr>cache = [''/device/list:{}'' \<mapsto> \<lparr>data = example_devices, timestamp = 1002\<rparr>],
       ticks = 3,
       calls = [signed_get example_world ''/device/list'' [] 1001 ''secret'']\<rparr>)"
proof -
  have miss: "\<not> truthy (fst (getFromCache (clock example_world (ticks initial_state))
      (getCacheKey example_world ''/device/list'' []) (cache initial_state)))"
    by (simp add: getFromCache_def initial_state_def)
  have key: "SECRET_KEY example_world = Some ''secret''"
    by (simp add: example_world_def)
  have c: "clock example_world n = 1000 + int n" for n
    by (simp add: example_world_def)
  have h: "http_get example_world n (signed_get example_world ''/device/list'' [] 1001 ''secret'')
      = Inr example_devices" for n
    by (simp add: signed_get_example) (simp add: example_world_def example_http_def)
  show ?thesis
    unfolding renogyRequest_miss [OF miss key]
    by (simp add: c h Let_def getCacheKey_no_params initial_state_def getFromCache_def
        setCache_def)
qed

theorem renogyRequest_cache_or_signed_get_witness:
  "fresh_entry example_world ''/device/list:{}'' initial_state = None \<and>
   fst (renogyRequest example_world ''/device/list'' [] initial_state) = Inr example_devices \<and>
   calls (snd (renogyRequest example_world ''/device/list'' [] initial_state)) =
     [signed_get example_world ''/device/list'' [] 1001 ''secret''] \<and>
   cache (snd (renogyRequest example_world ''/device/list'' [] initial_state)) ''/device/list:{}'' =
     Some \<lparr>data = example_devices, timestamp = 1002\<rparr> \<and>
   fresh_entry example_world ''/device/list:{}''
     (snd (renogyRequest example_world ''/device/list'' [] initial_state)) = Some example_devices \<and>
   truthy example_devices \<and>
   fst (renogyRequest example_world ''/device/list'' []
         (snd (renogyRequest example_world ''/device/list'' [] initial_state))) = Inr example_devices \<and>
   calls (snd (renogyRequest example_world ''/device/list'' []
         (snd (renogyRequest example_world ''/device/list'' [] initial_state)))) =
     [signed_get example_world ''/device/list'' [] 1001 ''secret'']"
proof -
  let ?s1 = "snd (renogyRequest example_world ''/device/list'' [] initial_state)"
  have key: "''/device/list:{}'' = getCacheKey example_world ''/device/list'' []"
    by (simp add: getCacheKey_no_params)
  have c: "clock example_world n = 1000 + int n" for n
    by (simp add: example_world_def)
  have sk: "SECRET_KEY example_world = Some ''secret''"
    by (simp add: example_world_def)
  have f0: "fresh_entry example_world ''/device/list:{}'' initial_state = None"
    by (simp add: fresh_entry_def initial_state_def)
  have h: "http_get example_world (length (calls initial_state))
       (signed_get example_world ''/device/list'' [] (clock example_world (ticks initial_state + 1)) ''secret'')
      = Inr example_devices"
    by (simp add: c initial_state_def signed_get_example) (simp add: example_world_def example_http_def)
  note miss = renogyRequest_cache_or_signed_get [OF key, of initial_state "''secret''",
      THEN conjunct2, rule_format, OF conjI [OF disjI1 [OF f0] sk]]
  from miss h have r0: "fst (renogyRequest example_world ''/device/list'' [] initial_state) = Inr example_devices"
    and c0: "cache ?s1 ''/device/list:{}'' = Some \<lparr>data = example_devices, timestamp = 1002\<rparr>"
    and l0: "calls ?s1 = [signed_get example_world ''/device/list'' [] 1001 ''secret'']"
    by (simp_all add: c initial_state_def)
  have t1: "ticks ?s1 = 3"
    by (simp add: first_list_request)
  have f1: "fresh_entry example_world ''/device/list:{}'' ?s1 = Some example_devices"
    by (simp add: fresh_entry_def c0 t1 c)
  have tr: "truthy example_devices"
    by (simp add: example_devices_def)
  from renogyRequest_cache_or_signed_get [OF key, of ?s1 "''secret''",
      THEN conjunct1, rule_format, OF conjI [OF f1 tr]]
  have r1: "renogyRequest example_world ''/device/list'' [] ?s1 =
      (Inr example_devices, ?s1\<lparr>ticks := ticks ?s1 + 1\<rparr>)" .
  show ?thesis
    using f0 r0 l0 c0 f1 tr by (simp add: r1)
qed

theorem cached_falsy_payload_counterexample:
  "fresh_entry example_world ''/device/list:{}'' falsy_cached = Some (Num 0) \<and>
   fst (renogyRequest example_world ''/device/list'' [] falsy_cached) = Inr example_devices \<and>
   fst (renogyRequest example_world ''/device/list'' [] falsy_cached) \<noteq> Inr (Num 0) \<and>
   calls falsy_cached = [] \<and>
   calls (snd (renogyRequest example_world ''/device/list'' [] falsy_cached)) =
     [signed_get example_world ''/device/list'' [] 1001 ''secret''] \<and>
   fresh_entry unconfigured_world ''/device/list:{}'' initial_state = None \<and>
   calls (snd (renogyRequest unconfigured_world ''/device/list'' [] initial_state)) = [] \<and>
   isl (fst (renogyRequest unconfigured_world ''/device/list'' [] initial_state))"
proof -
  have c: "clock example_world n = 1000 + int n" for n
    by (simp add: example_world_def)
  have f: "fresh_entry example_world ''/device/list:{}'' falsy_cached = Some (Num 0)"
    by (simp add: fresh_entry_def falsy_cached_def c)
  have miss: "\<not> truthy (fst (getFromCache (clock example_world (ticks falsy_cached))
      (getCacheKey example_world ''/device/list'' []) (cache falsy_cached)))"
    by (simp add: getFromCache_def falsy_cached_def getCacheKey_no_params c CACHE_TTL_def)
  have key: "SECRET_KEY example_world = Some ''secret''"
    by (simp add: example_world_def)
  have h: "http_get example_world n (signed_get example_world ''/device/list'' [] 1001 ''secret'')
      = Inr example_devices" for n
    by (simp add: signed_get_example) (simp add: example_world_def example_http_def)
  have t: "ticks falsy_cached = 0" "calls falsy_cached = []"
    by (simp_all add: falsy_cached_def)
  have r: "fst (renogyRequest example_world ''/device/list'' [] falsy_cached) = Inr example_devices"
    "calls (snd (renogyRequest example_world ''/device/list'' [] falsy_cached)) =
     [signed_get example_world ''/device/list'' [] 1001 ''secret'']"
    unfolding renogyRequest_miss [OF miss key]
    by (simp_all add: t c h Let_def)
  have ne: "Inr example_devices \<noteq> (Inr (Num 0) :: error + jsval)"
    by (simp add: example_devices_def)
  have miss': "\<not> truthy (fst (getFromCache (clock unconfigured_world (ticks initial_state))
      (getCacheKey unconfigured_world ''/device/list'' []) (cache initial_state)))"
    by (simp add: getFromCache_def initial_state_def)
  have u: "calls (snd (renogyRequest unconfigured_world ''/device/list'' [] initial_state)) = []"
    "isl (fst (renogyRequest unconfigured_world ''/device/list'' [] initial_state))"
    using miss'
    by (simp_all add: renogyRequest_def Let_def split_beta calcSign_def createHmac_def
        unconfigured_world_def initial_state_def)
  have f': "fresh_entry unconfigured_world ''/device/list:{}'' initial_state = None"
    by (simp add: fresh_entry_def initial_state_def)
  from f r ne t u f' show ?thesis by simp
qed



section \<open>Aggregator: the fatal path\<close>

lemma renogyRequest_calls:
  "calls (snd (renogyRequest w endpoint [] s)) = calls s \<or>
   (\<exists>r. calls (snd (renogyRequest w endpoint [] s)) = calls s @ [r] \<and>
        req_url r = ''https://openapi.renogy.com'' @ endpoint)"
  by (simp add: renogyRequest_def Let_def split_beta RENOGY_BASE_URL_def
      URLSearchParams_toString_def split: sum.splits)

text \<open>
  C2. When the fetch of the device list fails, the dashboard route answers with the error
  envelope: an object with the properties \<open>error\<close> and \<open>details\<close>. The server is then in the
  state in which the failed fetch left it, so no further request function was run; in
  particular at most one request went to the vendor, for \<^verbatim>\<open>/device/list\<close>, and none for
  the data or the alarms of any device.
\<close>

theorem dashboard_device_list_failure:
  assumes "fst (renogyRequest w ''/device/list'' [] s) = Inl err"
  shows "dashboard w s =
           (Inr (error_envelope ''Failed to fetch dashboard data'' err),
            snd (renogyRequest w ''/device/list'' [] s)) \<and>
         (\<exists>details. body (error_envelope ''Failed to fetch dashboard data'' err) =
            Obj [(''error'', Str ''Failed to fetch dashboard data''), (''details'', details)]) \<and>
         length (calls (snd (dashboard w s))) \<le> length (calls s) + 1 \<and>
         (\<forall>r \<in> set (drop (length (calls s)) (calls (snd (dashboard w s)))).
            req_url r = ''https://openapi.renogy.com/device/list'')"
proof -
  obtain r1 s1 where rs: "renogyRequest w ''/device/list'' [] s = (r1, s1)"
    by (cases "renogyRequest w ''/device/list'' [] s")
  with assms have r1: "r1 = Inl err" by simp
  have d: "dashboard w s = (Inr (error_envelope ''Failed to fetch dashboard data'' err), s1)"
    by (simp add: dashboard_def api_dashboard_def rs r1)
  have env: "\<exists>details. body (error_envelope ''Failed to fetch dashboard data'' err) =
            Obj [(''error'', Str ''Failed to fetch dashboard data''), (''details'', details)]"
    by (simp add: error_envelope_def)
  from renogyRequest_calls [of w "''/device/list''" s] rs
  have "calls s1 = calls s \<or>
        (\<exists>r. calls s1 = calls s @ [r] \<and> req_url r = ''https://openapi.renogy.com/device/list'')"
    by simp
  then have "length (calls s1) \<le> length (calls s) + 1 \<and>
      (\<forall>r \<in> set (drop (length (calls s)) (calls s1)).
            req_url r = ''https://openapi.renogy.com/device/list'')"
    by auto
  with d env rs show ?thesis by simp
qed

theorem dashboard_device_list_failure_witness:
  "fst (renogyRequest offline_world ''/device/list'' [] initial_state) = Inl (NetworkError ''timeout'') \<and>
   fst (dashboard offline_world initial_state) =
     Inr \<lparr>status = 500,
          body = Obj [(''error'', Str ''Failed to fetch dashboard data''),
                      (''details'', Str ''timeout'')]\<rparr> \<and>
   length (calls (snd (dashboard offline_world initial_state))) \<le> 1"
proof -
  have miss: "\<not> truthy (fst (getFromCache (clock offline_world (ticks initial_state))
      (getCacheKey offline_world ''/device/list'' []) (cache initial_state)))"
    by (simp add: getFromCache_def initial_state_def)
  have key: "SECRET_KEY offline_world = Some ''secret''"
    by (simp add: offline_world_def example_world_def)
  have h: "http_get offline_world n r = Inl (NetworkError ''timeout'')" for n r
    by (simp add: offline_world_def)
  have f: "fst (renogyRequest offline_world ''/device/list'' [] initial_state) =
      Inl (NetworkError ''timeout'')"
    unfolding renogyRequest_miss [OF miss key] by (simp add: h Let_def)
  note th = dashboard_device_list_failure [OF f]
  from th have a: "fst (dashboard offline_world initial_state) =
      Inr (error_envelope ''Failed to fetch dashboard data'' (NetworkError ''timeout''))"
    by simp
  from th have b: "length (calls (snd (dashboard offline_world initial_state))) \<le>
      length (calls initial_state) + 1"
    by blast
  have c: "calls initial_state = []"
    by (simp add: initial_state_def)
  from f a b c show ?thesis by (simp add: error_envelope_def)
qed

section \<open>Aggregator: fault isolation\<close>













section \<open>Cache keys\<close>

subsection \<open>Quoted strings form a prefix code\<close>

lemma hex_lower_eq_iff: "hex_lower a = hex_lower b \<longleftrightarrow> a mod 16 = b mod 16"
proof -
  have d: "distinct ''0123456789abcdef''" by simp
  have l: "length ''0123456789abcdef'' = 16" by simp
  show ?thesis
    unfolding hex_lower_def
    by (rule nth_eq_iff_index_eq [OF d]) (simp_all add: l)
qed

lemma hex_lower_in: "hex_lower a \<in> set ''0123456789abcdef''"
  unfolding hex_lower_def by (rule nth_mem) simp

lemma below_32_eq:
  fixes n m :: nat
  assumes "n < 32" "m < 32" "n div 16 mod 16 = m div 16 mod 16" "n mod 16 = m mod 16"
  shows "n = m"
proof -
  from assms(1) have "n div 16 < 16" by simp
  moreover from assms(2) have "m div 16 < 16" by simp
  ultimately have "n div 16 = m div 16" using assms(3) by simp
  with assms(4) have "n div 16 * 16 + n mod 16 = m div 16 * 16 + m mod 16" by simp
  then show ?thesis by (simp only: div_mult_mod_eq)
qed
lemma control_char_eq:
  fixes c c' :: char
  assumes ctl: "is_control c" "is_control c'"
      and hi: "hex_lower (of_char c div 16) = hex_lower (of_char c' div 16)"
      and lo: "hex_lower (of_char c) = hex_lower (of_char c')"
  shows "c = c'"
proof -
  obtain n :: nat where n: "n = of_char c" by blast
  obtain m :: nat where m: "m = of_char c'" by blast
  from hi have h: "n div 16 mod 16 = m div 16 mod 16"
    unfolding hex_lower_eq_iff n m .
  from lo have l: "n mod 16 = m mod 16"
    unfolding hex_lower_eq_iff n m .
  from ctl have b: "n < 32" "m < 32" unfolding n m is_control_def by simp_all
  have "n = m" by (rule below_32_eq [OF b h l])
  then have "(of_char c :: nat) = of_char c'" unfolding n m .
  then show ?thesis by (rule of_char_eq_iff [THEN iffD1])
qed

lemma short_escape_inj: "short_escape c = Some x \<Longrightarrow> short_escape c' = Some x \<Longrightarrow> c = c'"
  unfolding short_escape_def by (auto split: if_splits)

lemma short_escape_not_u: "short_escape c = Some x \<Longrightarrow> x \<noteq> CHR ''u''"
  unfolding short_escape_def by (auto split: if_splits)

lemma short_escape_None: "short_escape c = None \<Longrightarrow> c \<noteq> CHR 0x5C \<and> c \<noteq> CHR 0x22"
  unfolding short_escape_def by (auto split: if_splits)

lemma json_escape_prefix_code:
  assumes "json_escape c @ x = json_escape c' @ x'"
  shows "c = c' \<and> x = x'"
proof (cases "short_escape c")
  case (Some a)
  note c = this
  show ?thesis
  proof (cases "short_escape c'")
    case (Some b)
    with c assms have "a = b" "x = x'" by (simp_all add: json_escape_def)
    with c Some short_escape_inj show ?thesis by blast
  next
    case None
    with c assms short_escape_not_u [OF c] short_escape_None [OF None] show ?thesis
      by (auto simp: json_escape_def split: if_splits)
  qed
next
  case None
  note c = this
  show ?thesis
  proof (cases "short_escape c'")
    case (Some b)
    with c assms short_escape_not_u [OF Some] short_escape_None [OF c] show ?thesis
      by (auto simp: json_escape_def split: if_splits)
  next
    case None
    show ?thesis
    proof (cases "is_control c")
      case True
      note lc = this
      show ?thesis
      proof (cases "is_control c'")
        case True
        with lc c None assms have
          "hex_lower (of_char c div 16) = hex_lower (of_char c' div 16)"
          "hex_lower (of_char c) = hex_lower (of_char c')" "x = x'"
          by (simp_all add: json_escape_def)
        with control_char_eq [OF lc True] show ?thesis by simp
      next
        case False
        with lc c None assms short_escape_None [OF None] show ?thesis
          by (simp add: json_escape_def)
      qed
    next
      case False
      note lc = this
      show ?thesis
      proof (cases "is_control c'")
        case True
        with lc c None assms short_escape_None [OF c] show ?thesis
          by (simp add: json_escape_def)
      next
        case False
        with lc c None assms show ?thesis by (simp add: json_escape_def)
      qed
    qed
  qed
qed

lemma json_escape_not_quote: "json_escape c @ x = CHR 0x22 # y \<Longrightarrow> False"
proof (cases "short_escape c")
  case None
  assume "json_escape c @ x = CHR 0x22 # y"
  with None short_escape_None [OF None] show False
    by (cases "is_control c") (simp_all add: json_escape_def)
next
  case (Some a)
  assume "json_escape c @ x = CHR 0x22 # y"
  with Some show False by (simp add: json_escape_def)
qed

lemma escaped_terminated:
  "concat (map json_escape s) @ CHR 0x22 # r = concat (map json_escape s') @ CHR 0x22 # r'
   \<Longrightarrow> s = s' \<and> r = r'"
proof (induction s arbitrary: s')
  case Nil
  then show ?case
    by (cases s') (auto dest: json_escape_not_quote [OF sym])
next
  case (Cons c s)
  show ?case
  proof (cases s')
    case Nil
    with Cons.prems show ?thesis by (auto dest: json_escape_not_quote)
  next
    case (Cons c' t)
    with Cons.prems have "json_escape c @ (concat (map json_escape s) @ CHR 0x22 # r) =
        json_escape c' @ (concat (map json_escape t) @ CHR 0x22 # r')"
      by simp
    from json_escape_prefix_code [OF this] Cons.IH [of t] Cons show ?thesis by simp
  qed
qed

lemma json_quote_prefix_code:
  "json_quote s @ r = json_quote s' @ r' \<Longrightarrow> s = s' \<and> r = r'"
  using escaped_terminated [of s r s' r'] by (simp add: json_quote_def)

subsection \<open>\<^verbatim>\<open>JSON.stringify\<close> is injective\<close>

lemma join_Cons: "join sep (x # xs) = x @ (if xs = [] then [] else sep @ join sep xs)"
  by (cases xs) simp_all

lemma follows_simps:
  "follows []" "follows (CHR '','' # u)" "follows (CHR '']'' # u)" "follows (CHR ''}'' # u)"
  by (simp_all add: follows_def)

lemma follows_number_char: "follows (c # u) \<Longrightarrow> c \<in> number_chars \<Longrightarrow> False"
  by (auto simp: follows_def number_chars_def)

lemma delimited_cancel:
  assumes "set a \<subseteq> number_chars" "set b \<subseteq> number_chars"
      and "follows r" "follows r'"
      and "a @ r = b @ r'"
  shows "a = b \<and> r = r'"
  using assms
proof (induction a arbitrary: b)
  case Nil
  show ?case
  proof (cases b)
    case Nil
    with Nil.prems show ?thesis by simp
  next
    case (Cons c t)
    with Nil.prems have "r = c # t @ r'" "c \<in> number_chars" by simp_all
    with Nil.prems(3) follows_number_char show ?thesis by blast
  qed
next
  case (Cons c a)
  show ?case
  proof (cases b)
    case Nil
    with Cons.prems have "r' = c # a @ r" "c \<in> number_chars" by simp_all
    with Cons.prems(4) follows_number_char show ?thesis by blast
  next
    case (Cons d t)
    with Cons.prems Cons.IH [of t] show ?thesis by simp
  qed
qed

lemma join_terminated:
  assumes elem: "\<And>x y t t'. x \<in> set xs \<Longrightarrow> y \<in> set ys \<Longrightarrow> follows t \<Longrightarrow> follows t' \<Longrightarrow>
            f x @ t = f y @ t' \<Longrightarrow> x = y \<and> t = t'"
      and fx: "\<And>x t u. x \<in> set xs \<Longrightarrow> f x @ t \<noteq> c # u"
      and fy: "\<And>y t u. y \<in> set ys \<Longrightarrow> f y @ t \<noteq> c # u"
      and c: "c = CHR '']'' \<or> c = CHR ''}''"
      and eq: "join '','' (map f xs) @ c # r = join '','' (map f ys) @ c # r'"
  shows "xs = ys \<and> r = r'"
  using assms
proof (induction xs arbitrary: ys)
  case Nil
  show ?case
  proof (cases ys)
    case Nil
    with Nil.prems show ?thesis by simp
  next
    case (Cons y ys')
    with Nil.prems(5)
    have "f y @ ((if ys' = [] then [] else '','' @ join '','' (map f ys')) @ c # r') = c # r"
      by (simp add: join_Cons)
    with Nil.prems(3) [of y] Cons show ?thesis by simp
  qed
next
  case (Cons x xs)
  show ?case
  proof (cases ys)
    case Nil
    with Cons.prems(5)
    have "f x @ ((if xs = [] then [] else '','' @ join '','' (map f xs)) @ c # r) = c # r'"
      by (simp add: join_Cons)
    with Cons.prems(2) [of x] show ?thesis by simp
  next
    case (Cons y ys')
    let ?t = "(if xs = [] then [] else '','' @ join '','' (map f xs)) @ c # r"
    let ?t' = "(if ys' = [] then [] else '','' @ join '','' (map f ys')) @ c # r'"
    from Cons.prems(5) Cons have eq: "f x @ ?t = f y @ ?t'"
      by (simp add: join_Cons)
    have t: "follows ?t" and t': "follows ?t'"
      using Cons.prems(4) by (auto simp: follows_simps)
    have "x \<in> set (x # xs)" "y \<in> set ys" using Cons by simp_all
    from Cons.prems(1) [OF this t t' eq]
    have xy: "x = y" and tt: "?t = ?t'" by simp_all
    have cc: "c \<noteq> CHR '',''" using Cons.prems(4) by auto
    show ?thesis
    proof (cases "xs = []")
      case True
      note xs = this
      show ?thesis
      proof (cases "ys' = []")
        case True
        with xs tt xy Cons show ?thesis by simp
      next
        case False
        with xs tt cc show ?thesis by simp
      qed
    next
      case False
      note xs = this
      show ?thesis
      proof (cases "ys' = []")
        case True
        with xs tt cc show ?thesis by simp
      next
        case False
        with xs tt have e: "join '','' (map f xs) @ c # r = join '','' (map f ys') @ c # r'"
          by simp
        have "xs = ys' \<and> r = r'"
        proof (rule Cons.IH [OF _ _ _ Cons.prems(4) e])
          fix a b t u
          assume "a \<in> set xs" "b \<in> set ys'" "follows t" "follows u" "f a @ t = f b @ u"
          with Cons.prems(1) [of a b t u] Cons show "a = b \<and> t = u" by simp
        next
          fix a t u assume "a \<in> set xs"
          with Cons.prems(2) [of a t u] show "f a @ t \<noteq> c # u" by simp
        next
          fix b t u assume "b \<in> set ys'"
          with Cons.prems(3) [of b t u] Cons show "f b @ t \<noteq> c # u" by simp
        qed
        with xy Cons show ?thesis by simp
      qed
    qed
  qed
qed

lemma printable_head:
  assumes "numbers_printable nts N" "q \<in> N"
  shows "\<exists>c s. nts q = c # s \<and> c \<in> number_chars \<and> set (nts q) \<subseteq> number_chars"
proof -
  from assms have ne: "nts q \<noteq> []" and sub: "set (nts q) \<subseteq> number_chars"
    by (auto simp: numbers_printable_def)
  from ne obtain c s where cs: "nts q = c # s" by (cases "nts q") auto
  with sub have "c \<in> number_chars" by simp
  with cs sub show ?thesis by blast
qed

lemma number_chars_simps:
  "CHR ''n'' \<notin> number_chars" "CHR ''t'' \<notin> number_chars" "CHR ''f'' \<notin> number_chars"
  "CHR 0x22 \<notin> number_chars" "CHR ''['' \<notin> number_chars" "CHR ''{'' \<notin> number_chars"
  "CHR '']'' \<notin> number_chars" "CHR ''}'' \<notin> number_chars"
  by (simp_all add: number_chars_def)

lemma kind_of_number_char: "c \<in> number_chars \<Longrightarrow> kind_of_char c = KNum"
  by (auto simp: kind_of_char_def number_chars_def)

lemma json_stringify_head:
  assumes "numbers_printable nts N" "set (numbers v) \<subseteq> N"
  shows "\<exists>c s. json_stringify nts v = c # s \<and> kind_of_char c = kind_of v"
proof (cases v)
  case (Num q)
  with assms have "q \<in> N" by simp
  from printable_head [OF assms(1) this] obtain c s where "nts q = c # s" "c \<in> number_chars"
    by blast
  with Num kind_of_number_char show ?thesis by simp
qed (simp_all add: kind_of_char_def json_quote_def)

lemma json_stringify_kind:
  assumes "numbers_printable nts N" "set (numbers v) \<subseteq> N" "set (numbers v') \<subseteq> N"
      and "json_stringify nts v @ t = json_stringify nts v' @ t'"
  shows "kind_of v = kind_of v'"
proof -
  from json_stringify_head [OF assms(1,2)] obtain c s where
    c: "json_stringify nts v = c # s" "kind_of_char c = kind_of v" by blast
  from json_stringify_head [OF assms(1,3)] obtain c' s' where
    c': "json_stringify nts v' = c' # s'" "kind_of_char c' = kind_of v'" by blast
  from assms(4) c c' have "c = c'" by simp
  with c c' show ?thesis by simp
qed

lemma json_stringify_not_closing:
  assumes "numbers_printable nts N" "set (numbers v) \<subseteq> N"
      and "c = CHR '']'' \<or> c = CHR ''}''"
  shows "json_stringify nts v @ t \<noteq> c # u"
proof -
  from json_stringify_head [OF assms(1,2)] obtain d s where
    d: "json_stringify nts v = d # s" "kind_of_char d = kind_of v" by blast
  have "kind_of_char c = KNum" using assms(3) by (auto simp: kind_of_char_def)
  moreover have "d \<noteq> c" if "kind_of v = KNum"
  proof (cases v)
    case (Num q)
    with assms have "q \<in> N" by simp
    from printable_head [OF assms(1) this] Num d have "d \<in> number_chars" by auto
    with assms(3) number_chars_simps show ?thesis by auto
  qed (use that in \<open>simp_all split: if_splits\<close>)
  ultimately show ?thesis using d by auto
qed

lemma numbers_elem: "x \<in> set xs \<Longrightarrow> set (numbers x) \<subseteq> set (numbers (Arr xs))"
  by auto

lemma numbers_member: "(k, v) \<in> set kvs \<Longrightarrow> set (numbers v) \<subseteq> set (numbers (Obj kvs))"
  by force

lemma no_undefined_elem: "\<not> has_undefined (Arr xs) \<Longrightarrow> x \<in> set xs \<Longrightarrow> \<not> has_undefined x"
  by (auto simp: list_ex_iff)

lemma no_undefined_member:
  "\<not> has_undefined (Obj kvs) \<Longrightarrow> (k, v) \<in> set kvs \<Longrightarrow> \<not> has_undefined v"
  by (force simp: list_ex_iff)

lemma no_undefined_filter:
  "\<not> has_undefined (Obj kvs) \<Longrightarrow> filter (\<lambda>(k, v). v \<noteq> Undefined) kvs = kvs"
  by (induction kvs) auto

lemma kind_cases:
  "kind_of v' = KNull \<Longrightarrow> \<not> has_undefined v' \<Longrightarrow> v' = Null"
  "kind_of v' = (if b then KTrue else KFalse) \<Longrightarrow> v' = Bool b"
  "kind_of v' = KNum \<Longrightarrow> \<exists>q. v' = Num q"
  "kind_of v' = KStr \<Longrightarrow> \<exists>s. v' = Str s"
  "kind_of v' = KArr \<Longrightarrow> \<exists>ys. v' = Arr ys"
  "kind_of v' = KObj \<Longrightarrow> \<exists>kvs. v' = Obj kvs"
  by (cases v'; simp split: if_splits)+

lemma json_stringify_prefix_free:
  assumes np: "numbers_printable nts N"
  shows "\<not> has_undefined v \<Longrightarrow> \<not> has_undefined v' \<Longrightarrow>
         set (numbers v) \<subseteq> N \<Longrightarrow> set (numbers v') \<subseteq> N \<Longrightarrow> follows t \<Longrightarrow> follows t' \<Longrightarrow>
         json_stringify nts v @ t = json_stringify nts v' @ t' \<Longrightarrow> v = v' \<and> t = t'"
proof (induction v arbitrary: v' t t')
  case Undefined
  then show ?case by simp
next
  case Null
  from json_stringify_kind [OF np Null.prems(3,4,7)] Null.prems(2)
  have "v' = Null" by (simp add: kind_cases)
  with Null.prems(7) show ?case by simp
next
  case (Bool b)
  from json_stringify_kind [OF np Bool.prems(3,4,7)]
  have "v' = Bool b" by (simp add: kind_cases)
  with Bool.prems(7) show ?case by simp
next
  case (Num q)
  from json_stringify_kind [OF np Num.prems(3,4,7)] kind_cases(3) [of v']
  obtain q' where v': "v' = Num q'" by auto
  with Num.prems have q: "q \<in> N" "q' \<in> N" by simp_all
  from np q have s: "set (nts q) \<subseteq> number_chars" "set (nts q') \<subseteq> number_chars"
    by (auto simp: numbers_printable_def)
  from Num.prems(7) v' have "nts q @ t = nts q' @ t'" by simp
  from delimited_cancel [OF s Num.prems(5,6) this] have "nts q = nts q'" "t = t'" by simp_all
  with np q have "q = q'" by (auto simp: numbers_printable_def dest: inj_onD)
  with v' \<open>t = t'\<close> show ?case by simp
next
  case (Str s)
  from json_stringify_kind [OF np Str.prems(3,4,7)] kind_cases(4) [of v']
  obtain s' where v': "v' = Str s'" by auto
  with Str.prems(7) json_quote_prefix_code [of s t s' t'] show ?case by simp
next
  case (Arr xs)
  from json_stringify_kind [OF np Arr.prems(3,4,7)] kind_cases(5) [of v']
  obtain ys where v': "v' = Arr ys" by auto
  from Arr.prems(7) v'
  have eq: "join '','' (map (json_stringify nts) xs) @ CHR '']'' # t =
            join '','' (map (json_stringify nts) ys) @ CHR '']'' # t'"
    by simp
  have "xs = ys \<and> t = t'"
  proof (rule join_terminated [where f = "json_stringify nts" and c = "CHR '']''", OF _ _ _ _ eq])
    fix x y u u'
    assume a: "x \<in> set xs" "y \<in> set ys" "follows u" "follows u'"
      "json_stringify nts x @ u = json_stringify nts y @ u'"
    from a(1) Arr.prems(1,3) have x: "\<not> has_undefined x" "set (numbers x) \<subseteq> N"
      using no_undefined_elem numbers_elem by blast+
    from a(2) Arr.prems(2,4) v' have y: "\<not> has_undefined y" "set (numbers y) \<subseteq> N"
      using no_undefined_elem numbers_elem by blast+
    from Arr.IH [OF a(1) x(1) y(1) x(2) y(2) a(3,4,5)] show "x = y \<and> u = u'" .
  next
    fix x u w assume "x \<in> set xs"
    with Arr.prems(3) have "set (numbers x) \<subseteq> N" using numbers_elem by blast
    from json_stringify_not_closing [OF np this] show "json_stringify nts x @ u \<noteq> CHR '']'' # w"
      by simp
  next
    fix y u w assume "y \<in> set ys"
    with Arr.prems(4) v' have "set (numbers y) \<subseteq> N" using numbers_elem by blast
    from json_stringify_not_closing [OF np this] show "json_stringify nts y @ u \<noteq> CHR '']'' # w"
      by simp
  qed simp
  with v' show ?case by simp
next
  case (Obj kvs)
  from json_stringify_kind [OF np Obj.prems(3,4,7)] kind_cases(6) [of v']
  obtain kvs' where v': "v' = Obj kvs'" by auto
  let ?f = "\<lambda>(k, v). json_quote k @ '':'' @ json_stringify nts v"
  from Obj.prems(7) v' no_undefined_filter [OF Obj.prems(1)] Obj.prems(2)
    no_undefined_filter [of kvs']
  have eq: "join '','' (map ?f kvs) @ CHR ''}'' # t = join '','' (map ?f kvs') @ CHR ''}'' # t'"
    by simp
  have "kvs = kvs' \<and> t = t'"
  proof (rule join_terminated [where f = ?f and c = "CHR ''}''", OF _ _ _ _ eq])
    fix x y u u'
    assume a: "x \<in> set kvs" "y \<in> set kvs'" "follows u" "follows u'" "?f x @ u = ?f y @ u'"
    obtain k v where x: "x = (k, v)" by (cases x)
    obtain k' w where y: "y = (k', w)" by (cases y)
    from a(1) x Obj.prems(1,3) have xv: "\<not> has_undefined v" "set (numbers v) \<subseteq> N"
      using no_undefined_member numbers_member by blast+
    from a(2) y Obj.prems(2,4) v' have yv: "\<not> has_undefined w" "set (numbers w) \<subseteq> N"
      using no_undefined_member numbers_member by blast+
    from a(5) x y have "json_quote k @ (CHR '':'' # json_stringify nts v @ u) =
        json_quote k' @ (CHR '':'' # json_stringify nts w @ u')"
      by simp
    from json_quote_prefix_code [OF this]
    have kk: "k = k'" and e: "json_stringify nts v @ u = json_stringify nts w @ u'" by simp_all
    have "v \<in> Basic_BNFs.snds x" using x by simp
    from Obj.IH [OF a(1) this xv(1) yv(1) xv(2) yv(2) a(3,4) e] kk x y
    show "x = y \<and> u = u'" by simp
  next
    fix x u w assume "x \<in> set kvs"
    show "?f x @ u \<noteq> CHR ''}'' # w" by (cases x) (simp add: json_quote_def)
  next
    fix y u w assume "y \<in> set kvs'"
    show "?f y @ u \<noteq> CHR ''}'' # w" by (cases y) (simp add: json_quote_def)
  qed simp
  with v' show ?case by simp
qed

lemma json_stringify_inj:
  assumes "numbers_printable nts (set (numbers v) \<union> set (numbers v'))"
      and "\<not> has_undefined v" "\<not> has_undefined v'"
      and "json_stringify nts v = json_stringify nts v'"
  shows "v = v'"
  using json_stringify_prefix_free [OF assms(1), of v v' "[]" "[]"] assms(2-)
  by (simp add: follows_simps)

subsection \<open>No JSON object text ends in a colon and a JSON object text\<close>

lemma run_simps [simp]: "scan_run st [] = st" "scan_run st (c # cs) = scan_run (scan_step st c) cs"
  by (simp_all add: scan_run_def)

lemma run_append: "scan_run st (a @ b) = scan_run (scan_run st a) b"
  by (simp add: scan_run_def)

lemma safe_append: "scan_safe st (a @ b) \<longleftrightarrow> scan_safe st a \<and> scan_safe (scan_run st a) b"
  by (induction a arbitrary: st) auto

lemma step_shift: "scan_step (m, d + k) c = (fst (scan_step (m, d) c), snd (scan_step (m, d) c) + k)"
  by (cases m) auto

lemma run_shift: "scan_run (m, d + k) s = (fst (scan_run (m, d) s), snd (scan_run (m, d) s) + k)"
proof (induction s arbitrary: m d)
  case Nil
  then show ?case by simp
next
  case (Cons c s)
  obtain m' d' where st: "scan_step (m, d) c = (m', d')" by (cases "scan_step (m, d) c")
  with step_shift [of m d k c] have "scan_step (m, d + k) c = (m', d' + k)" by simp
  with st Cons.IH [of m' d'] show ?case by simp
qed

lemma step_colon: "fst (scan_step st (CHR '':'')) \<noteq> Escaped"
  by (cases st, case_tac a) auto

lemma flipped_scan:
  "scan_safe (Outside, a) s \<Longrightarrow> scan_safe (Inside, b) s \<Longrightarrow>
   (fst (scan_run (Outside, a) s) = Outside \<and> fst (scan_run (Inside, b) s) = Inside) \<or>
   (fst (scan_run (Outside, a) s) = Inside \<and> fst (scan_run (Inside, b) s) = Outside)"
proof (induction s arbitrary: a b)
  case Nil
  then show ?case by simp
next
  case (Cons c s)
  show ?case
  proof (cases "c = CHR 0x22")
    case True
    with Cons.prems have "scan_safe (Outside, b) s" "scan_safe (Inside, a) s" by simp_all
    from Cons.IH [OF this] True show ?thesis by auto
  next
    case False
    from Cons.prems(1) have nb: "c \<noteq> CHR 0x5C" by simp
    obtain a' where o: "scan_step (Outside, a) c = (Outside, a')" using False by (cases "scan_step (Outside, a) c") (auto split: if_splits)
    with Cons.prems False nb have "scan_safe (Outside, a') s" "scan_safe (Inside, b) s" by simp_all
    from Cons.IH [OF this] o False nb show ?thesis by simp
  qed
qed

lemma no_colon_suffix:
  assumes r1: "scan_run (Outside, 1) rest1 = (Outside, 0)" and s1: "scan_safe (Outside, 1) rest1"
      and r2: "scan_run (Outside, 1) rest2 = (Outside, 0)" and s2: "scan_safe (Outside, 1) rest2"
      and eq: "rest1 = x @ CHR '':'' # CHR ''{'' # rest2"
  shows False
proof -
  obtain pre where pre: "pre = x @ [CHR '':'']" by blast
  obtain m d where st: "scan_run (Outside, 1) pre = (m, d)"
    by (cases "scan_run (Outside, 1) pre")
  have split: "rest1 = pre @ CHR ''{'' # rest2" using eq pre by simp
  from s1 st have sf: "scan_safe (m, d) (CHR ''{'' # rest2)"
    unfolding split safe_append by simp
  from r1 st have rn: "scan_run (m, d) (CHR ''{'' # rest2) = (Outside, 0)"
    unfolding split run_append by simp
  from sf have d: "d \<ge> 1" by simp
  have "m \<noteq> Escaped"
    using st step_colon [of "scan_run (Outside, 1) x"] unfolding pre by (simp add: run_append)
  then consider "m = Outside" | "m = Inside" by (cases m) auto
  then show False
  proof cases
    case 1
    with rn have "scan_run (Outside, 1 + d) rest2 = (Outside, 0)" by (simp add: add.commute)
    with run_shift [of Outside 1 d rest2] r2 have "d = 0" by simp
    with d show False by simp
  next
    case 2
    with sf have "scan_safe (Inside, d) rest2" by simp
    from flipped_scan [OF s2 this] r2 have "fst (scan_run (Inside, d) rest2) = Inside" by simp
    with rn 2 show False by simp
  qed
qed

lemma hex_lower_plain: "hex_lower n \<noteq> CHR 0x22 \<and> hex_lower n \<noteq> CHR 0x5C"
  using hex_lower_in [of n] by auto

lemma json_escape_scan:
  assumes "d \<ge> 1"
  shows "scan_run (Inside, d) (json_escape c) = (Inside, d) \<and> scan_safe (Inside, d) (json_escape c)"
proof (cases "short_escape c")
  case None
  with assms short_escape_None [OF None] hex_lower_plain show ?thesis
    by (cases "is_control c") (simp_all add: json_escape_def)
next
  case (Some x)
  with assms show ?thesis by (simp add: json_escape_def)
qed

lemma escaped_scan:
  assumes "d \<ge> 1"
  shows "scan_run (Inside, d) (concat (map json_escape s)) = (Inside, d) \<and>
         scan_safe (Inside, d) (concat (map json_escape s))"
  using json_escape_scan [OF assms]
  by (induction s) (simp_all add: run_append safe_append)

lemma json_quote_scan:
  assumes "d \<ge> 1"
  shows "scan_run (Outside, d) (json_quote s) = (Outside, d) \<and> scan_safe (Outside, d) (json_quote s)"
  using escaped_scan [OF assms, of s] assms
  by (simp add: json_quote_def run_append safe_append)

lemma number_char_step: "c \<in> number_chars \<Longrightarrow> scan_step (Outside, d) c = (Outside, d) \<and> c \<noteq> CHR 0x5C"
  by (auto simp: number_chars_def)

lemma number_scan:
  assumes "set s \<subseteq> number_chars" "d \<ge> 1"
  shows "scan_run (Outside, d) s = (Outside, d) \<and> scan_safe (Outside, d) s"
  using assms by (induction s) (simp_all add: number_char_step del: scan_step.simps)

lemma join_scan:
  assumes "e \<ge> 1"
      and "\<And>x. x \<in> set xs \<Longrightarrow> scan_run (Outside, e) (f x) = (Outside, e) \<and> scan_safe (Outside, e) (f x)"
  shows "scan_run (Outside, e) (join '','' (map f xs)) = (Outside, e) \<and>
         scan_safe (Outside, e) (join '','' (map f xs))"
  using assms(2)
proof (induction xs)
  case Nil
  then show ?case by simp
next
  case (Cons x xs)
  from Cons.prems [of x] have x: "scan_run (Outside, e) (f x) = (Outside, e)" "scan_safe (Outside, e) (f x)"
    by simp_all
  from Cons.IH Cons.prems
  have xs: "scan_run (Outside, e) (join '','' (map f xs)) = (Outside, e)"
    "scan_safe (Outside, e) (join '','' (map f xs))" by simp_all
  from x xs assms(1) show ?case
    by (simp add: join_Cons run_append safe_append)
qed

lemma json_stringify_scan:
  assumes np: "numbers_printable nts N"
  shows "set (numbers v) \<subseteq> N \<Longrightarrow> d \<ge> 1 \<Longrightarrow>
         scan_run (Outside, d) (json_stringify nts v) = (Outside, d) \<and> scan_safe (Outside, d) (json_stringify nts v)"
proof (induction v arbitrary: d)
  case (Num q)
  with np have "set (nts q) \<subseteq> number_chars" by (auto simp: numbers_printable_def)
  from number_scan [OF this Num.prems(2)] show ?case by simp
next
  case (Str s)
  from json_quote_scan [OF Str.prems(2)] show ?case by simp
next
  case (Arr xs)
  have e: "d + 1 \<ge> 1" using Arr.prems(2) by simp
  have "scan_run (Outside, d + 1) (join '','' (map (json_stringify nts) xs)) = (Outside, d + 1) \<and>
        scan_safe (Outside, d + 1) (join '','' (map (json_stringify nts) xs))"
  proof (rule join_scan [OF e])
    fix x assume x: "x \<in> set xs"
    with Arr.prems(1) have "set (numbers x) \<subseteq> N" using numbers_elem by blast
    from Arr.IH [OF x this e]
    show "scan_run (Outside, d + 1) (json_stringify nts x) = (Outside, d + 1) \<and>
          scan_safe (Outside, d + 1) (json_stringify nts x)" .
  qed
  with Arr.prems(2) show ?case by (simp add: run_append safe_append)
next
  case (Obj kvs)
  let ?f = "\<lambda>(k, v). json_quote k @ '':'' @ json_stringify nts v"
  let ?kvs = "filter (\<lambda>(k, v). v \<noteq> Undefined) kvs"
  have e: "d + 1 \<ge> 1" using Obj.prems(2) by simp
  have "scan_run (Outside, d + 1) (join '','' (map ?f ?kvs)) = (Outside, d + 1) \<and>
        scan_safe (Outside, d + 1) (join '','' (map ?f ?kvs))"
  proof (rule join_scan [OF e])
    fix x assume "x \<in> set ?kvs"
    then have x: "x \<in> set kvs" by simp
    obtain k v where kv: "x = (k, v)" by (cases x)
    with x Obj.prems(1) have n: "set (numbers v) \<subseteq> N" using numbers_member by blast
    have "v \<in> Basic_BNFs.snds x" using kv by simp
    from Obj.IH [OF x this n e] json_quote_scan [OF e, of k] kv e
    show "scan_run (Outside, d + 1) (?f x) = (Outside, d + 1) \<and> scan_safe (Outside, d + 1) (?f x)"
      by (simp add: run_append safe_append)
  qed
  with Obj.prems(2) show ?case by (simp add: run_append safe_append)
qed simp_all

lemma object_text_scan:
  assumes np: "numbers_printable nts N" and sub: "set (numbers (Obj kvs)) \<subseteq> N"
  shows "\<exists>rest. json_stringify nts (Obj kvs) = CHR ''{'' # rest \<and>
           scan_run (Outside, 1) rest = (Outside, 0) \<and> scan_safe (Outside, 1) rest"
proof -
  let ?f = "\<lambda>(k, v). json_quote k @ '':'' @ json_stringify nts v"
  let ?kvs = "filter (\<lambda>(k, v). v \<noteq> Undefined) kvs"
  have e: "(1::int) \<ge> 1" by simp
  have "scan_run (Outside, 1) (join '','' (map ?f ?kvs)) = (Outside, 1) \<and>
        scan_safe (Outside, 1) (join '','' (map ?f ?kvs))"
  proof (rule join_scan [OF e])
    fix x assume "x \<in> set ?kvs"
    then have x: "x \<in> set kvs" by simp
    obtain k v where kv: "x = (k, v)" by (cases x)
    with x sub have n: "set (numbers v) \<subseteq> N" using numbers_member by blast
    from json_stringify_scan [OF np n e] json_quote_scan [OF e, of k] kv
    show "scan_run (Outside, 1) (?f x) = (Outside, 1) \<and> scan_safe (Outside, 1) (?f x)"
      by (simp add: run_append safe_append)
  qed
  then have "scan_run (Outside, 1) (join '','' (map ?f ?kvs) @ ''}'') = (Outside, 0) \<and>
             scan_safe (Outside, 1) (join '','' (map ?f ?kvs) @ ''}'')"
    by (simp add: run_append safe_append)
  then show ?thesis by simp
qed

lemma colon_object_suffix:
  assumes "scan_run (Outside, 1) rest1 = (Outside, 0)" "scan_safe (Outside, 1) rest1"
      and "scan_run (Outside, 1) rest2 = (Outside, 0)" "scan_safe (Outside, 1) rest2"
      and eq: "CHR '':'' # CHR ''{'' # rest1 = us @ CHR '':'' # CHR ''{'' # rest2"
  shows "us = []"
proof (cases us)
  case Nil
  then show ?thesis .
next
  case (Cons c u)
  with eq have u: "CHR ''{'' # rest1 = u @ CHR '':'' # CHR ''{'' # rest2" by simp
  show ?thesis
  proof (cases u)
    case Nil
    with u show ?thesis by simp
  next
    case (Cons c' x)
    with u have "rest1 = x @ CHR '':'' # CHR ''{'' # rest2" by simp
    from no_colon_suffix [OF assms(1-4) this] show ?thesis ..
  qed
qed

lemma key_endpoint_eq:
  assumes np: "numbers_printable nts N"
      and n1: "set (numbers (Obj p1)) \<subseteq> N" and n2: "set (numbers (Obj p2)) \<subseteq> N"
      and eq: "e1 @ '':'' @ json_stringify nts (Obj p1) = e2 @ '':'' @ json_stringify nts (Obj p2)"
  shows "e1 = e2"
proof -
  from object_text_scan [OF np n1] obtain rest1 where
    r1: "json_stringify nts (Obj p1) = CHR ''{'' # rest1"
        "scan_run (Outside, 1) rest1 = (Outside, 0)" "scan_safe (Outside, 1) rest1" by blast
  from object_text_scan [OF np n2] obtain rest2 where
    r2: "json_stringify nts (Obj p2) = CHR ''{'' # rest2"
        "scan_run (Outside, 1) rest2 = (Outside, 0)" "scan_safe (Outside, 1) rest2" by blast
  from eq have "e1 @ (CHR '':'' # CHR ''{'' # rest1) = e2 @ (CHR '':'' # CHR ''{'' # rest2)"
    unfolding r1(1) r2(1) by simp
  then obtain us where
    "e1 = e2 @ us \<and> us @ CHR '':'' # CHR ''{'' # rest1 = CHR '':'' # CHR ''{'' # rest2 \<or>
     e1 @ us = e2 \<and> CHR '':'' # CHR ''{'' # rest1 = us @ CHR '':'' # CHR ''{'' # rest2"
    unfolding append_eq_append_conv2 by blast
  then show ?thesis
  proof
    assume a: "e1 = e2 @ us \<and> us @ CHR '':'' # CHR ''{'' # rest1 = CHR '':'' # CHR ''{'' # rest2"
    then have "CHR '':'' # CHR ''{'' # rest2 = us @ CHR '':'' # CHR ''{'' # rest1" by simp
    from colon_object_suffix [OF r2(2,3) r1(2,3) this] a show ?thesis by simp
  next
    assume a: "e1 @ us = e2 \<and> CHR '':'' # CHR ''{'' # rest1 = us @ CHR '':'' # CHR ''{'' # rest2"
    then have "CHR '':'' # CHR ''{'' # rest1 = us @ CHR '':'' # CHR ''{'' # rest2" by simp
    from colon_object_suffix [OF r1(2,3) r2(2,3) this] a show ?thesis by simp
  qed
qed

lemma numbers_printable_mono: "numbers_printable nts N \<Longrightarrow> M \<subseteq> N \<Longrightarrow> numbers_printable nts M"
  by (auto simp: numbers_printable_def intro: inj_on_subset)

subsection \<open>The key determines the call\<close>

text \<open>
  C5, amended. The cache key is a function of the endpoint and the parameter mapping, and
  it is injective on the parameter mappings that \<^verbatim>\<open>JSON.stringify\<close> writes in full: when
  neither of two mappings holds an undefined value (at any depth) and the engine prints
  the numbers in them distinctly, the two keys are equal exactly when the endpoints are
  equal and the mappings are identical (the same properties with the same values, in the
  same order).
\<close>

theorem getCacheKey_injective:
  assumes "\<not> has_undefined (Obj params1)" "\<not> has_undefined (Obj params2)"
      and "numbers_printable (number_to_string w)
             (set (numbers (Obj params1)) \<union> set (numbers (Obj params2)))"
  shows "getCacheKey w endpoint1 params1 = getCacheKey w endpoint2 params2 \<longleftrightarrow>
         endpoint1 = endpoint2 \<and> params1 = params2"
proof
  assume eq: "getCacheKey w endpoint1 params1 = getCacheKey w endpoint2 params2"
  let ?nts = "number_to_string w"
  from eq have e: "endpoint1 @ '':'' @ json_stringify ?nts (Obj params1) =
                   endpoint2 @ '':'' @ json_stringify ?nts (Obj params2)"
    by (simp add: getCacheKey_def)
  have ends: "endpoint1 = endpoint2"
    by (rule key_endpoint_eq [OF assms(3) _ _ e]) simp_all
  with e have "json_stringify ?nts (Obj params1) = json_stringify ?nts (Obj params2)"
    by simp
  from json_stringify_inj [OF assms(3,1,2) this] ends
  show "endpoint1 = endpoint2 \<and> params1 = params2" by simp
next
  assume "endpoint1 = endpoint2 \<and> params1 = params2"
  then show "getCacheKey w endpoint1 params1 = getCacheKey w endpoint2 params2" by simp
qed

theorem getCacheKey_injective_witness:
  "\<not> has_undefined (Obj (history_params (Num 2024))) \<and>
   \<not> has_undefined (Obj (history_params (Str ''2024''))) \<and>
   numbers_printable (number_to_string history_world)
     (set (numbers (Obj (history_params (Num 2024)))) \<union>
      set (numbers (Obj (history_params (Str ''2024''))))) \<and>
   getCacheKey history_world ''/device/data/history/7'' (history_params (Num 2024)) \<noteq>
   getCacheKey history_world ''/device/data/history/7'' (history_params (Str ''2024'')) \<and>
   getCacheKey history_world ''/device/data/history/7'' (history_params (Num 2024)) \<noteq>
   getCacheKey history_world ''/device/data/history/8'' (history_params (Num 2024))"
proof -
  have u1: "\<not> has_undefined (Obj (history_params (Num 2024)))"
    and u2: "\<not> has_undefined (Obj (history_params (Str ''2024'')))"
    by (simp_all add: history_params_def)
  have nts: "number_to_string history_world =
      (\<lambda>n. if n = 2024 then ''2024'' else if n = 11 then ''11'' else ''0'')"
    by (simp add: history_world_def)
  have p: "numbers_printable (number_to_string history_world) {2024, 11, 0}"
    unfolding numbers_printable_def nts
    by (auto simp: inj_on_def number_chars_def split: if_splits)
  have s1: "set (numbers (Obj (history_params (Num 2024)))) \<union>
      set (numbers (Obj (history_params (Str ''2024'')))) = {2024, 11, 0}"
    by (auto simp: history_params_def)
  have s2: "set (numbers (Obj (history_params (Num 2024)))) \<union>
      set (numbers (Obj (history_params (Num 2024)))) = {2024, 11, 0}"
    by (auto simp: history_params_def)
  have n: "numbers_printable (number_to_string history_world)
     (set (numbers (Obj (history_params (Num 2024)))) \<union>
      set (numbers (Obj (history_params (Str ''2024'')))))"
    unfolding s1 by (rule p)
  have n': "numbers_printable (number_to_string history_world)
     (set (numbers (Obj (history_params (Num 2024)))) \<union>
      set (numbers (Obj (history_params (Num 2024)))))"
    unfolding s2 by (rule p)
  have d: "history_params (Num 2024) \<noteq> history_params (Str ''2024'')"
    by (simp add: history_params_def)
  from getCacheKey_injective [OF u1 u2 n, of "''/device/data/history/7''" "''/device/data/history/7''"] d
  have k1: "getCacheKey history_world ''/device/data/history/7'' (history_params (Num 2024)) \<noteq>
   getCacheKey history_world ''/device/data/history/7'' (history_params (Str ''2024''))"
    by simp
  from getCacheKey_injective [OF u1 u1 n', of "''/device/data/history/7''" "''/device/data/history/8''"]
  have k2: "getCacheKey history_world ''/device/data/history/7'' (history_params (Num 2024)) \<noteq>
   getCacheKey history_world ''/device/data/history/8'' (history_params (Num 2024))"
    by simp
  from u1 u2 n k1 k2 show ?thesis by blast
qed

theorem undefined_parameter_key_counterexample:
  "getCacheKey example_world ''/device/data/history/7'' [(''year'', Undefined)] =
     getCacheKey example_world ''/device/data/history/7'' [] \<and>
   [(''year'', Undefined)] \<noteq> ([] :: (string \<times> jsval) list) \<and>
   URLSearchParams_toString example_world [(''year'', Undefined)] = ''year=undefined'' \<and>
   URLSearchParams_toString example_world [] = ''''"
  by (simp add: getCacheKey_def URLSearchParams_toString_def form_encode_def
      form_encode_char_def)

end
